theory Spec2Isabelle
  imports Complex_Main
begin

section \<open>Safety signal writer (services/ascom\_safety.py)\<close>

text \<open>
  The writer publishes the roof classification as a small text file. The model
  keeps the file system as a finite map from paths to contents plus a set of
  directories, and makes every operating-system call that can fail a branch
  controlled by an environment record, so that each \<open>except\<close> clause of the
  source is reachable.
\<close>

datatype exn = OSError | IsADirectoryError | FileNotFoundError | TimeoutExpired
  | BrokenPipeError | ZeroDivisionError | ValueError

record filesystem =
  files :: "string \<rightharpoonup> string"
  dirs :: "string set"

text \<open>
  What the environment decides during one call of \<open>write_status\<close>: which system
  calls raise, how many characters reached the temp file when \<open>f.write\<close> raises,
  the two readings of \<open>datetime.now()\<close> (line 108, already formatted with
  \<open>%Y-%m-%d %H:%M:%S\<close>, and line 144), and the rendering of Python's format
  specification \<open>.0%\<close>. The rendering is a parameter because it rounds a binary
  floating-point product; confidences themselves are rationals.
\<close>

record os_env =
  makedirs_fails :: bool
  open_fails :: bool
  write_fails :: bool
  partial_len :: nat
  replace_fails :: bool
  remove_fails :: bool
  now_formatted :: string
  now_written :: string
  format_pct :: "rat \<Rightarrow> string"

record writer =
  file_path :: string
  preamble :: string
  open_trigger :: string
  closed_trigger :: string
  include_confidence :: bool
  include_sky_condition :: bool
  min_confidence :: rat
  last_write_time :: "string option"
  last_status :: "string option"

text \<open>
  The dictionary handed to \<open>write_status\<close>, restricted to the four keys it reads.
  \<open>None\<close> is a missing key (for the two confidences also the value \<open>None\<close>).
\<close>

record ml_dict =
  d_roof_status :: "string option"
  d_roof_confidence :: "rat option"
  d_sky_condition :: "string option"
  d_sky_confidence :: "rat option"

definition dict_get :: "'a option \<Rightarrow> 'a \<Rightarrow> 'a" where
  "dict_get v dflt = (case v of None \<Rightarrow> dflt | Some x \<Rightarrow> x)"

definition newline :: char where
  "newline = CHR 0x0A"

text \<open>\<open>os.path.dirname\<close> (POSIX flavour).\<close>

definition dirname :: "string \<Rightarrow> string" where
  "dirname p =
     (let head = rev (dropWhile (\<lambda>c. c \<noteq> CHR ''/'') (rev p))
      in if head \<noteq> [] \<and> \<not> list_all (\<lambda>c. c = CHR ''/'') head
         then rev (dropWhile (\<lambda>c. c = CHR ''/'') (rev head))
         else head)"

definition path_exists :: "filesystem \<Rightarrow> string \<Rightarrow> bool" where
  "path_exists fs p \<longleftrightarrow> files fs p \<noteq> None \<or> p \<in> dirs fs"

text \<open>\<open>os.makedirs\<close>: the directory and every missing ancestor.\<close>

definition makedirs :: "filesystem \<Rightarrow> string \<Rightarrow> filesystem" where
  "makedirs fs d =
     fs\<lparr>dirs := dirs fs \<union> {d} \<union>
        set [take n d. n \<leftarrow> [1..<length d], d ! n = CHR ''/'']\<rparr>"

text \<open>\<open>os.remove\<close>: raises on a directory, on a missing file, or when the system refuses.\<close>

definition os_remove :: "os_env \<Rightarrow> filesystem \<Rightarrow> string \<Rightarrow> exn + filesystem" where
  "os_remove env fs p =
     (if p \<in> dirs fs then Inl IsADirectoryError
      else if files fs p = None then Inl FileNotFoundError
      else if remove_fails env then Inl OSError
      else Inr (fs\<lparr>files := (files fs)(p := None)\<rparr>))"

text \<open>
  The \<open>except Exception\<close> clause of \<open>_atomic_write\<close> (lines 150 to 157): remove the
  temp file if it exists, swallow an \<open>OSError\<close> of the removal, re-raise.
\<close>

definition cleanup_temp :: "os_env \<Rightarrow> filesystem \<Rightarrow> string \<Rightarrow> filesystem" where
  "cleanup_temp env fs temp_path =
     (if path_exists fs temp_path
      then (case os_remove env fs temp_path of Inl e \<Rightarrow> fs | Inr fs' \<Rightarrow> fs')
      else fs)"

definition first_line :: "string \<Rightarrow> string" where
  "first_line content = takeWhile (\<lambda>c. c \<noteq> newline) content"

text \<open>
  \<open>_atomic_write\<close>. The result is the returned boolean or the exception that
  leaves the method, together with the writer and the file system afterwards.
\<close>

definition atomic_write ::
  "os_env \<Rightarrow> writer \<Rightarrow> string \<Rightarrow> filesystem \<Rightarrow> (exn + bool) \<times> writer \<times> filesystem" where
  "atomic_write env w content fs =
     (let dir_path = dirname (file_path w);
          need_dir = (dir_path \<noteq> [] \<and> \<not> path_exists fs dir_path)
      in if need_dir \<and> makedirs_fails env then (Inr False, w, fs)
         else
           let fs1 = (if need_dir then makedirs fs dir_path else fs);
               temp_path = file_path w @ ''.tmp''
           in if open_fails env \<or> temp_path \<in> dirs fs1
              then (Inl OSError, w, cleanup_temp env fs1 temp_path)
              else if write_fails env
              then (Inl OSError, w,
                    cleanup_temp env
                      (fs1\<lparr>files := (files fs1)(temp_path \<mapsto> take (partial_len env) content)\<rparr>)
                      temp_path)
              else
                let fs2 = fs1\<lparr>files := (files fs1)(temp_path \<mapsto> content)\<rparr>
                in if replace_fails env \<or> file_path w \<in> dirs fs2
                   then (Inl OSError, w, cleanup_temp env fs2 temp_path)
                   else (Inr True,
                         w\<lparr>last_write_time := Some (now_written env),
                           last_status := Some (first_line content)\<rparr>,
                         fs2\<lparr>files := (files fs2)(temp_path := None,
                                                   file_path w \<mapsto> content)\<rparr>))"

definition is_configured :: "writer \<Rightarrow> bool" where
  "is_configured w \<longleftrightarrow> file_path w \<noteq> []"

definition join_lines :: "string list \<Rightarrow> string" where
  "join_lines ls = concat (map (\<lambda>l. l @ [newline]) ls)"

text \<open>Lines 94 to 110 of \<open>write_status\<close>: the lines of the document.\<close>

definition status_lines :: "os_env \<Rightarrow> writer \<Rightarrow> ml_dict \<Rightarrow> string list" where
  "status_lines env w d =
     (let roof_status = dict_get (d_roof_status d) ''N/A'';
          sky_condition = dict_get (d_sky_condition d) ''N/A'';
          trigger = (if roof_status = ''Open'' then open_trigger w else closed_trigger w)
      in [preamble w @ '' '' @ trigger]
         @ (case d_roof_confidence d of
              Some c \<Rightarrow> if include_confidence w
                        then [''Confidence: '' @ format_pct env c] else []
            | None \<Rightarrow> [])
         @ (if include_sky_condition w \<and> sky_condition \<noteq> ''N/A''
            then [''Sky Condition: '' @ sky_condition
                  @ (case d_sky_confidence d of
                       Some sc \<Rightarrow> '' ('' @ format_pct env sc @ '')''
                     | None \<Rightarrow> [])]
            else [])
         @ [''Updated: '' @ now_formatted env])"

definition write_status ::
  "os_env \<Rightarrow> writer \<Rightarrow> ml_dict \<Rightarrow> filesystem \<Rightarrow> bool \<times> writer \<times> filesystem" where
  "write_status env w d fs =
     (if \<not> is_configured w then (False, w, fs)
      else if dict_get (d_roof_status d) ''N/A'' = ''N/A'' then (False, w, fs)
      else if (case d_roof_confidence d of Some c \<Rightarrow> c < min_confidence w | None \<Rightarrow> False)
      then (False, w, fs)
      else
        (case atomic_write env w (join_lines (status_lines env w d)) fs of
           (Inr b, w', fs') \<Rightarrow> (b, w', fs')
         | (Inl e, w', fs') \<Rightarrow> (False, w', fs')))"

text \<open>
  An exact-arithmetic rendering of \<open>.0%\<close>, used for concrete scenarios: one hundred
  times the value, rounded to the nearest integer with ties to even.
\<close>

definition digit_char :: "nat \<Rightarrow> char" where
  "digit_char d = ''0123456789'' ! d"

fun digits :: "nat \<Rightarrow> string" where
  "digits n = (if n < 10 then [digit_char n]
               else digits (n div 10) @ [digit_char (n mod 10)])"

declare digits.simps [simp del]

definition round_half_even :: "rat \<Rightarrow> int" where
  "round_half_even x =
     (let f = \<lfloor>x\<rfloor>; r = x - of_int f
      in if r < 1 / 2 then f
         else if 1 / 2 < r then f + 1
         else if even f then f else f + 1)"

definition percent0 :: "rat \<Rightarrow> string" where
  "percent0 x =
     (let n = round_half_even (100 * x)
      in (if n < 0 then ''-'' else '''') @ digits (nat \<bar>n\<bar>) @ ''%'')"

text \<open>
  The guard of \<open>write_status\<close> (lines 76 to 92) as one predicate: the call goes on
  to build the document and to call \<open>_atomic_write\<close>.
\<close>

definition proceeds :: "writer \<Rightarrow> ml_dict \<Rightarrow> bool" where
  "proceeds w d \<longleftrightarrow> is_configured w \<and> dict_get (d_roof_status d) ''N/A'' \<noteq> ''N/A''
     \<and> (case d_roof_confidence d of Some c \<Rightarrow> \<not> c < min_confidence w | None \<Rightarrow> True)"

subsection \<open>A concrete writer, environment and file system\<close>

definition demo_env :: os_env where
  "demo_env = \<lparr>makedirs_fails = False, open_fails = False, write_fails = False,
     partial_len = 0, replace_fails = False, remove_fails = False,
     now_formatted = ''2025-01-02 03:04:05'', now_written = ''2025-01-02 03:04:05'',
     format_pct = percent0\<rparr>"

definition demo_writer :: writer where
  "demo_writer = \<lparr>file_path = ''/obs/roof.txt'', preamble = ''Roof Status:'',
     open_trigger = ''OPEN'', closed_trigger = ''CLOSED'', include_confidence = True,
     include_sky_condition = True, min_confidence = 7 / 10,
     last_write_time = None, last_status = None\<rparr>"

definition demo_fs :: filesystem where
  "demo_fs = \<lparr>files = [''/obs/roof.txt'' \<mapsto> ''old''], dirs = {''/obs''}\<rparr>"

definition demo_dict :: ml_dict where
  "demo_dict = \<lparr>d_roof_status = Some ''Open'', d_roof_confidence = Some (92 / 100),
     d_sky_condition = Some ''Clear'', d_sky_confidence = Some (871 / 1000)\<rparr>"

section \<open>RTSP bridge (services/rtsp\_output.py)\<close>

text \<open>
  The bridge object as a record, threaded through every method. The encoder
  subprocess is represented by the video size on its command line and by the
  signals it has received. The field \<open>events\<close> is the ordered trace of subprocess
  actions, frame stores and log lines, so that the number and order of restarts
  can be read off a run; it is the only field that is not in the source.
\<close>

datatype event =
    Log string
  | Terminate
  | Wait_ok
  | Wait_timeout
  | Kill
  | Spawn nat nat
  | Sent nat
  | Store_frame

record proc =
  video_size :: "nat \<times> nat"
  terminated :: bool
  killed :: bool

text \<open>
  A loaded image: its size, its mode, and its pixels as \<open>convert('RGB')\<close> yields
  them, row by row.
\<close>

record image =
  width :: nat
  height :: nat
  mode :: string
  rgb :: "(nat \<times> nat \<times> nat) list"

datatype image_input = Path string | Img image

record rtsp =
  host :: string
  port :: nat
  stream_name :: string
  fps :: rat
  process :: "proc option"
  running :: bool
  last_frame :: "nat list option"
  frame_size :: "(nat \<times> nat) option"
  events :: "event list"

text \<open>
  What the environment decides during a call: the result of \<open>Image.open\<close> on a
  path, whether \<open>process.wait(timeout=...)\<close> raises \<open>TimeoutExpired\<close>, and whether
  \<open>subprocess.Popen\<close> raises.
\<close>

record rtsp_env =
  open_image :: "string \<Rightarrow> exn + image"
  wait_times_out :: bool
  popen_fails :: bool

definition log_event :: "string \<Rightarrow> rtsp \<Rightarrow> rtsp" where
  "log_event msg s = s\<lparr>events := events s @ [Log msg]\<rparr>"

definition get_url :: "rtsp \<Rightarrow> string option" where
  "get_url s =
     (if running s
      then Some (''rtsp://'' @ host s @ '':'' @ digits (port s) @ ''/'' @ stream_name s)
      else None)"

text \<open>
  \<open>_restart_ffmpeg\<close>: terminate and wait two seconds, then spawn with the current
  frame size. Every exception inside (the wait timing out, the frame size being
  \<open>None\<close> when the command is built, \<open>Popen\<close> failing) is caught by the one
  \<open>except Exception\<close> clause, which logs and returns.
\<close>

definition restart_ffmpeg :: "rtsp_env \<Rightarrow> rtsp \<Rightarrow> rtsp" where
  "restart_ffmpeg env s =
     (let was_running = running s;
          stopped =
            (case process s of
               None \<Rightarrow> Inr s
             | Some p \<Rightarrow>
                 let s1 = s\<lparr>process := Some (p\<lparr>terminated := True\<rparr>),
                            events := events s @ [Terminate]\<rparr>
                 in if wait_times_out env
                    then Inl (s1\<lparr>events := events s1 @ [Wait_timeout]\<rparr>)
                    else Inr (s1\<lparr>events := events s1 @ [Wait_ok]\<rparr>))
      in case stopped of
           Inl s1 \<Rightarrow> log_event ''Error restarting RTSP ffmpeg'' s1
         | Inr s1 \<Rightarrow>
             if was_running
             then (case frame_size s1 of
                     None \<Rightarrow> log_event ''Error restarting RTSP ffmpeg'' s1
                   | Some (w, h) \<Rightarrow>
                       if popen_fails env
                       then log_event ''Error restarting RTSP ffmpeg'' s1
                       else log_event ''RTSP ffmpeg restarted with new frame size''
                              (s1\<lparr>process :=
                                    Some \<lparr>video_size = (w, h), terminated = False,
                                          killed = False\<rparr>,
                                  events := events s1 @ [Spawn w h]\<rparr>))
             else s1)"

text \<open>The bytes handed to the pump: each RGB pixel reversed to BGR, row-major.\<close>

definition bgr_bytes :: "image \<Rightarrow> nat list" where
  "bgr_bytes img = concat (map (\<lambda>(r, g, b). [b, g, r]) (rgb img))"

definition update_image :: "rtsp_env \<Rightarrow> rtsp \<Rightarrow> image_input \<Rightarrow> rtsp" where
  "update_image env s image_input =
     (if \<not> running s then s
      else
        case (case image_input of Path p \<Rightarrow> open_image env p | Img i \<Rightarrow> Inr i) of
          Inl e \<Rightarrow> log_event ''Error updating RTSP frame'' s
        | Inr img \<Rightarrow>
            let new_size = (width img, height img);
                s1 = (if Some new_size \<noteq> frame_size s
                      then restart_ffmpeg env
                             (log_event ''RTSP frame size changed''
                                (s\<lparr>frame_size := Some new_size\<rparr>))
                      else s)
            in log_event ''RTSP frame updated''
                 (s1\<lparr>last_frame := Some (bgr_bytes img),
                     events := events s1 @ [Store_frame]\<rparr>))"

text \<open>
  \<open>stop\<close>, the other place that ends a subprocess: terminate, wait five seconds,
  and on a timeout kill and wait again.
\<close>

definition stop :: "rtsp_env \<Rightarrow> rtsp \<Rightarrow> rtsp" where
  "stop env s =
     (if \<not> running s then s
      else
        let s0 = (log_event ''Stopping RTSP server...'' s)\<lparr>running := False\<rparr>;
            s1 = (case process s0 of
                    None \<Rightarrow> s0
                  | Some p \<Rightarrow>
                      if wait_times_out env
                      then s0\<lparr>process := Some (p\<lparr>terminated := True, killed := True\<rparr>),
                              events := events s0 @ [Terminate, Wait_timeout, Kill, Wait_ok]\<rparr>
                      else s0\<lparr>process := Some (p\<lparr>terminated := True\<rparr>),
                              events := events s0 @ [Terminate, Wait_ok]\<rparr>)
        in log_event ''RTSP server stopped'' s1)"

text \<open>
  \<open>_frame_sender_loop\<close>. Each element of the list is one iteration as the
  environment presents it: whether \<open>process.poll()\<close> reports an exit at the loop
  test, and how the write to the pipe ends. The second component of the result
  tells how the thread function ended; \<open>Still_looping\<close> means the loop was still
  running when the observed iterations ran out. The loop runs alone here: no
  other thread changes the bridge between iterations.
\<close>

datatype write_result = Write_ok | Broken_pipe | Write_error

record tick =
  exited :: bool
  wr :: write_result

datatype loop_end = Returned | Raised exn | Still_looping

fun sender_iterations :: "rtsp \<Rightarrow> tick list \<Rightarrow> rtsp \<times> loop_end" where
  "sender_iterations s [] = (s, Still_looping)"
| "sender_iterations s (t # ts) =
     (if running s \<and> process s \<noteq> None \<and> \<not> exited t
      then (case last_frame s of
              None \<Rightarrow> sender_iterations s ts
            | Some frame_bytes \<Rightarrow>
                (case wr t of
                   Write_ok \<Rightarrow>
                     sender_iterations (s\<lparr>events := events s @ [Sent (length frame_bytes)]\<rparr>) ts
                 | Broken_pipe \<Rightarrow>
                     (log_event ''RTSP frame sender thread stopped''
                        (log_event ''RTSP ffmpeg pipe broken'' s), Returned)
                 | Write_error \<Rightarrow>
                     sender_iterations (log_event ''Error sending frame to RTSP'' s) ts))
      else (log_event ''RTSP frame sender thread stopped'' s, Returned))"

definition frame_sender_loop :: "rtsp \<Rightarrow> tick list \<Rightarrow> rtsp \<times> loop_end" where
  "frame_sender_loop s ticks =
     (if fps s = 0 then (s, Raised ZeroDivisionError) else sender_iterations s ticks)"

subsection \<open>A running bridge\<close>

definition demo_rtsp :: rtsp where
  "demo_rtsp = \<lparr>host = ''0.0.0.0'', port = 8554, stream_name = ''asiwatchdog'', fps = 1,
     process = Some \<lparr>video_size = (1920, 1080), terminated = False, killed = False\<rparr>,
     running = True, last_frame = Some [0, 0, 0], frame_size = Some (1920, 1080),
     events = []\<rparr>"

definition small_frame :: image where
  "small_frame = \<lparr>width = 2, height = 1, mode = ''RGB'', rgb = [(1, 2, 3), (4, 5, 6)]\<rparr>"

definition rtsp_ok :: rtsp_env where
  "rtsp_ok = \<lparr>open_image = (\<lambda>p. Inl FileNotFoundError), wait_times_out = False,
     popen_fails = False\<rparr>"

definition broken_tick :: tick where
  "broken_tick = \<lparr>exited = False, wr = Broken_pipe\<rparr>"

section \<open>Storage eviction (services/cleanup.py)\<close>

text \<open>
  The watch directory as the eviction code sees it. A path is its list of
  components, so that \<open>os.path.join(dirpath, filename)\<close> appends one component.
  Files are (path, mtime, size) exactly as \<open>get_all_files_with_mtime\<close> collects
  them, kept in the order in which \<open>os.walk\<close> enumerates them; directories are
  (path, mtime) in the order of \<open>os.listdir\<close>. Modification times are integer
  ticks; only their order is used. The change of a parent's mtime when a file is
  removed is left out: no mtime is read after the first removal.
\<close>

type_synonym fpath = "string list"

type_synonym file_entry = "fpath \<times> int \<times> int"

record disk =
  d_dirs :: "(fpath \<times> int) list"
  d_files :: "file_entry list"

definition f_mtime :: "'a \<times> int \<times> 'b \<Rightarrow> int" where
  "f_mtime x = fst (snd x)"

definition f_size :: "file_entry \<Rightarrow> int" where
  "f_size x = snd (snd x)"

text \<open>A path lies (at any depth) under a directory; a path is an immediate child.\<close>

definition under :: "fpath \<Rightarrow> fpath \<Rightarrow> bool" where
  "under d p \<longleftrightarrow> length d < length p \<and> take (length d) p = d"

definition child_of :: "fpath \<Rightarrow> fpath \<Rightarrow> bool" where
  "child_of d p \<longleftrightarrow> length p = Suc (length d) \<and> take (length d) p = d"

definition get_all_files_with_mtime :: "disk \<Rightarrow> fpath \<Rightarrow> file_entry list" where
  "get_all_files_with_mtime dk directory = filter (\<lambda>f. under directory (fst f)) (d_files dk)"

definition get_directory_size :: "disk \<Rightarrow> fpath \<Rightarrow> int" where
  "get_directory_size dk directory =
     sum_list (map f_size (filter (\<lambda>f. under directory (fst f)) (d_files dk)))"

definition get_session_folders :: "disk \<Rightarrow> fpath \<Rightarrow> (fpath \<times> int \<times> int) list" where
  "get_session_folders dk directory =
     map (\<lambda>(p, m). (p, m, get_directory_size dk p))
       (filter (\<lambda>(p, m). child_of directory p) (d_dirs dk))"

text \<open>
  \<open>os.remove\<close> on a file of the watch directory. The predicate \<open>rm_fails\<close> names
  the paths whose removal the system refuses (a file held open by the capture
  process, missing permissions).
\<close>

definition remove_file :: "(fpath \<Rightarrow> bool) \<Rightarrow> disk \<Rightarrow> fpath \<Rightarrow> exn + disk" where
  "remove_file rm_fails dk p =
     (if p \<notin> fst ` set (d_files dk) then Inl FileNotFoundError
      else if rm_fails p then Inl OSError
      else Inr (dk\<lparr>d_files := filter (\<lambda>f. fst f \<noteq> p) (d_files dk)\<rparr>))"

text \<open>
  The state of a sweep: the disk, the running total \<open>current_size\<close>, the counter
  \<open>deleted_count\<close>, and the entries announced by the \<open>Deleted file\<close> lines, in
  order.
\<close>

record sweep =
  on_disk :: disk
  current_size :: int
  deleted_count :: nat
  deleted :: "file_entry list"

text \<open>
  The body shared by both strategies (lines 107 to 117 and 153 to 165): stop at
  the first entry reached with the total at or under the cap; otherwise try to
  remove the file, and on success subtract its size and count it; on an
  exception go on with the next entry.
\<close>

fun delete_files_loop ::
  "(fpath \<Rightarrow> bool) \<Rightarrow> int \<Rightarrow> file_entry list \<Rightarrow> sweep \<Rightarrow> sweep" where
  "delete_files_loop rm_fails max_size_bytes [] st = st"
| "delete_files_loop rm_fails max_size_bytes (f # rest) st =
     (if current_size st \<le> max_size_bytes then st
      else case remove_file rm_fails (on_disk st) (fst f) of
             Inl e \<Rightarrow> delete_files_loop rm_fails max_size_bytes rest st
           | Inr dk' \<Rightarrow>
               delete_files_loop rm_fails max_size_bytes rest
                 (st\<lparr>on_disk := dk',
                     current_size := current_size st - f_size f,
                     deleted_count := Suc (deleted_count st),
                     deleted := deleted st @ [f]\<rparr>))"

definition sweep_oldest_files :: "(fpath \<Rightarrow> bool) \<Rightarrow> disk \<Rightarrow> fpath \<Rightarrow> int \<Rightarrow> sweep" where
  "sweep_oldest_files rm_fails dk directory max_size_bytes =
     (let st = \<lparr>on_disk = dk, current_size = get_directory_size dk directory,
                deleted_count = 0, deleted = []\<rparr>
      in if current_size st \<le> max_size_bytes then st
         else delete_files_loop rm_fails max_size_bytes
                (sort_key f_mtime (get_all_files_with_mtime dk directory)) st)"

text \<open>\<open>delete_oldest_files\<close>: the number of files deleted, and the disk afterwards.\<close>

definition delete_oldest_files ::
  "(fpath \<Rightarrow> bool) \<Rightarrow> disk \<Rightarrow> fpath \<Rightarrow> int \<Rightarrow> nat \<times> disk" where
  "delete_oldest_files rm_fails dk directory max_size_bytes =
     (let st = sweep_oldest_files rm_fails dk directory max_size_bytes
      in (deleted_count st, on_disk st))"

text \<open>
  The loop over the session folders (lines 146 to 167). The files of a folder
  are those \<open>os.walk(folder_path)\<close> yields at that moment. The inner \<open>break\<close>
  leaves only the innermost loop, but the total no longer changes afterwards, so
  every later group of the walk breaks at its first file.
\<close>

fun sessions_loop ::
  "(fpath \<Rightarrow> bool) \<Rightarrow> int \<Rightarrow> (fpath \<times> int \<times> int) list \<Rightarrow> sweep \<Rightarrow> sweep" where
  "sessions_loop rm_fails max_size_bytes [] st = st"
| "sessions_loop rm_fails max_size_bytes (folder # rest) st =
     (if current_size st \<le> max_size_bytes then st
      else sessions_loop rm_fails max_size_bytes rest
             (delete_files_loop rm_fails max_size_bytes
                (get_all_files_with_mtime (on_disk st) (fst folder)) st))"

definition sweep_oldest_sessions :: "(fpath \<Rightarrow> bool) \<Rightarrow> disk \<Rightarrow> fpath \<Rightarrow> int \<Rightarrow> sweep" where
  "sweep_oldest_sessions rm_fails dk directory max_size_bytes =
     (let st = \<lparr>on_disk = dk, current_size = get_directory_size dk directory,
                deleted_count = 0, deleted = []\<rparr>;
          folders = sort_key f_mtime (get_session_folders dk directory)
      in if length folders = 0 then st
         else if length folders = 1 then st
         else sessions_loop rm_fails max_size_bytes (butlast folders) st)"

definition delete_oldest_sessions ::
  "(fpath \<Rightarrow> bool) \<Rightarrow> disk \<Rightarrow> fpath \<Rightarrow> int \<Rightarrow> nat \<times> disk" where
  "delete_oldest_sessions rm_fails dk directory max_size_bytes =
     (let st = sweep_oldest_sessions rm_fails dk directory max_size_bytes
      in (deleted_count st, on_disk st))"

text \<open>
  What one run of the shared loop body has done, from \<open>st\<close> to \<open>st'\<close> over the
  entries \<open>xs\<close>, removing \<open>ys\<close>: used to state the loop invariant.
\<close>

definition loop_post ::
  "(fpath \<Rightarrow> bool) \<Rightarrow> int \<Rightarrow> fpath \<Rightarrow> file_entry list \<Rightarrow> sweep \<Rightarrow> sweep \<Rightarrow> file_entry list \<Rightarrow> bool" where
  "loop_post rm_fails C D xs st st' ys \<longleftrightarrow>
     deleted st' = deleted st @ ys \<and> set ys \<subseteq> set xs \<and> sorted (map f_mtime ys)
     \<and> d_files (on_disk st') = filter (\<lambda>g. g \<notin> set ys) (d_files (on_disk st))
     \<and> deleted_count st' = deleted_count st + length ys
     \<and> current_size st' = current_size st - sum_list (map f_size ys)
     \<and> current_size st' = get_directory_size (on_disk st') D
     \<and> (\<forall>f \<in> set ys. \<not> rm_fails (fst f))
     \<and> (current_size st' \<le> C
          \<or> (\<forall>f \<in> set xs. f \<in> set (d_files (on_disk st')) \<longrightarrow> rm_fails (fst f)))"

subsection \<open>A watch directory with three session folders\<close>

definition watch :: fpath where
  "watch = [''watch'']"

definition demo_disk :: disk where
  "demo_disk =
     \<lparr>d_dirs = [([''watch'', ''s1''], 10), ([''watch'', ''s3''], 30), ([''watch'', ''s2''], 20)],
      d_files = [([''watch'', ''top.fits''], 25, 4),
                 ([''watch'', ''s1'', ''a.fits''], 11, 5),
                 ([''watch'', ''s1'', ''b.fits''], 12, 5),
                 ([''watch'', ''s3'', ''e.fits''], 31, 5),
                 ([''watch'', ''s2'', ''c.fits''], 21, 5),
                 ([''watch'', ''s2'', ''d.fits''], 22, 5)]\<rparr>"

section \<open>Inference service (services/ml\_service.py)\<close>

text \<open>
  Pixel values are exact rationals and the arithmetic of the feature extraction
  is exact; the rounding of \<open>float32\<close> and \<open>float64\<close> is not represented. What
  is kept of floating point is the value \<open>nan\<close>, which numpy produces for the
  mean or median of an empty selection and which then spreads through every
  later operation without raising.
\<close>

datatype pyfloat = Fin rat | NaN

text \<open>
  The pixel buffer by number of dimensions: rows of samples, rows of pixels
  with their channels, or any other number of dimensions.
\<close>

datatype ndarray =
    Gray2 "rat list list"
  | Multi3 "rat list list list"
  | Other_ndim

record corner_analysis =
  corner_med :: pyfloat
  center_med :: pyfloat
  corner_to_center_ratio :: pyfloat

definition np_mean :: "rat list \<Rightarrow> pyfloat" where
  "np_mean xs = (if xs = [] then NaN else Fin (sum_list xs / of_nat (length xs)))"

text \<open>All values of a selection when none is \<open>nan\<close>.\<close>

fun fin_values :: "pyfloat list \<Rightarrow> rat list option" where
  "fin_values [] = Some []"
| "fin_values (NaN # xs) = None"
| "fin_values (Fin x # xs) = (case fin_values xs of None \<Rightarrow> None | Some ys \<Rightarrow> Some (x # ys))"

text \<open>\<open>gray.max()\<close>: raises on an empty array, \<open>nan\<close> as soon as one value is.\<close>

definition arr_max :: "pyfloat list list \<Rightarrow> exn + pyfloat" where
  "arr_max g =
     (case fin_values (concat g) of
        None \<Rightarrow> Inr NaN
      | Some [] \<Rightarrow> Inl ValueError
      | Some (x # xs) \<Rightarrow> Inr (Fin (fold max xs x)))"

text \<open>\<open>np.median\<close> of a flattened selection.\<close>

definition np_median :: "pyfloat list \<Rightarrow> pyfloat" where
  "np_median sel =
     (case fin_values sel of
        None \<Rightarrow> NaN
      | Some [] \<Rightarrow> NaN
      | Some xs \<Rightarrow>
          let s = sort xs; n = length s
          in if odd n then Fin (s ! (n div 2))
             else Fin ((s ! (n div 2 - 1) + s ! (n div 2)) / 2))"

definition pf_gt :: "pyfloat \<Rightarrow> pyfloat \<Rightarrow> bool" where
  "pf_gt a b = (case (a, b) of (Fin x, Fin y) \<Rightarrow> y < x | _ \<Rightarrow> False)"

text \<open>Python's built-in \<open>max(a, b)\<close>: \<open>b\<close> only when \<open>b > a\<close> holds.\<close>

definition py_max :: "pyfloat \<Rightarrow> pyfloat \<Rightarrow> pyfloat" where
  "py_max a b = (if pf_gt b a then b else a)"

text \<open>Division of numpy floats; a zero divisor gives no exception.\<close>

definition pf_div :: "pyfloat \<Rightarrow> pyfloat \<Rightarrow> pyfloat" where
  "pf_div a b = (case (a, b) of (Fin x, Fin y) \<Rightarrow> if y = 0 then NaN else Fin (x / y) | _ \<Rightarrow> NaN)"

text \<open>The slices \<open>[:c]\<close> and \<open>[-c:]\<close>; \<open>[-0:]\<close> is the whole axis.\<close>

definition slice_first :: "nat \<Rightarrow> 'a list \<Rightarrow> 'a list" where
  "slice_first c xs = take c xs"

definition slice_last :: "nat \<Rightarrow> 'a list \<Rightarrow> 'a list" where
  "slice_last c xs = (if c = 0 then xs else drop (length xs - c) xs)"

definition slice_mid :: "nat \<Rightarrow> nat \<Rightarrow> 'a list \<Rightarrow> 'a list" where
  "slice_mid a b xs = drop a (take b xs)"

definition region :: "('a list list \<Rightarrow> 'a list list) \<Rightarrow> ('a list \<Rightarrow> 'a list) \<Rightarrow> 'a list list \<Rightarrow> 'a list" where
  "region rows cols g = concat (map cols (rows g))"

text \<open>Lines 276 to 280: grey values, or the exception of the shape unpacking.\<close>

definition to_gray :: "ndarray \<Rightarrow> exn + pyfloat list list" where
  "to_gray image_array =
     (case image_array of
        Multi3 rows \<Rightarrow> Inr (map (map np_mean) rows)
      | Gray2 rows \<Rightarrow> Inr (map (map Fin) rows)
      | Other_ndim \<Rightarrow> Inl ValueError)"

text \<open>Lines 283 and 284.\<close>

definition normalize :: "pyfloat list list \<Rightarrow> exn + pyfloat list list" where
  "normalize gray =
     (case arr_max gray of
        Inl e \<Rightarrow> Inl e
      | Inr m \<Rightarrow> Inr (if pf_gt m (Fin 1) then map (map (\<lambda>v. pf_div v (Fin 255))) gray else gray))"

text \<open>Lines 286 to 312, on the normalised grey image.\<close>

definition analyse_regions :: "pyfloat list list \<Rightarrow> corner_analysis" where
  "analyse_regions gray =
     (let h = length gray; w = length (hd gray);
          corner_size = min h w div 8;
          corners = [region (slice_first corner_size) (slice_first corner_size) gray,
                     region (slice_first corner_size) (slice_last corner_size) gray,
                     region (slice_last corner_size) (slice_first corner_size) gray,
                     region (slice_last corner_size) (slice_last corner_size) gray];
          ch = h div 4; cw = w div 4;
          center = region (slice_mid ch (h - ch)) (slice_mid cw (w - cw)) gray;
          cmed = np_median (map np_median corners);
          center_m = np_median center;
          ratio = pf_div cmed (py_max center_m (Fin (1 / 1000)))
      in \<lparr>corner_med = cmed, center_med = center_m, corner_to_center_ratio = ratio\<rparr>)"

definition corner_analysis_body :: "ndarray \<Rightarrow> exn + corner_analysis" where
  "corner_analysis_body image_array =
     (case to_gray image_array of
        Inl e \<Rightarrow> Inl e
      | Inr gray \<Rightarrow>
          (case normalize gray of
             Inl e \<Rightarrow> Inl e
           | Inr g \<Rightarrow> Inr (analyse_regions g)))"

text \<open>\<open>_compute_corner_analysis\<close>: the body, and the fixed result of its \<open>except\<close> clause.\<close>

definition compute_corner_analysis :: "ndarray \<Rightarrow> exn + corner_analysis" where
  "compute_corner_analysis image_array =
     (case corner_analysis_body image_array of
        Inl e \<Rightarrow> Inr \<lparr>corner_med = Fin 0, center_med = Fin 0, corner_to_center_ratio = Fin 1\<rparr>
      | Inr r \<Rightarrow> Inr r)"

record time_context =
  tc_hour :: nat
  tc_is_astronomical_night :: bool

text \<open>\<open>_compute_time_context\<close>; \<open>None\<close> stands for a clock that raises.\<close>

definition compute_time_context :: "nat option \<Rightarrow> exn + time_context" where
  "compute_time_context now_hour =
     (case now_hour of
        Some hour \<Rightarrow> Inr \<lparr>tc_hour = hour, tc_is_astronomical_night = (hour < 6 \<or> 20 \<le> hour)\<rparr>
      | None \<Rightarrow> Inr \<lparr>tc_hour = 12, tc_is_astronomical_night = False\<rparr>)"

record ml_results =
  roof_status :: string
  roof_confidence :: "rat option"
  sky_condition :: string
  sky_confidence :: "rat option"
  stars_visible :: "bool option"
  star_density :: "rat option"
  moon_visible :: "bool option"

record model_meta =
  m_corner_to_center_ratio :: pyfloat
  m_median_lum :: pyfloat
  m_is_astronomical_night :: bool
  m_hour :: nat
  m_moon_illumination :: rat
  m_moon_is_up :: bool

text \<open>
  What the classifiers hand back. A confidence or density of \<open>None\<close> is a value
  that \<open>float()\<close> rejects with an exception.
\<close>

record roof_result =
  roof_open :: bool
  confidence :: "rat option"

record sky_result =
  r_sky_condition :: string
  r_sky_confidence :: "rat option"
  r_stars_visible :: "bool option"
  r_star_density :: "rat option"
  r_moon_visible :: "bool option"

record ml_service =
  roof_classifier :: "(ndarray \<Rightarrow> model_meta \<Rightarrow> exn + roof_result) option"
  sky_classifier :: "(ndarray \<Rightarrow> model_meta \<Rightarrow> exn + sky_result) option"
  last_results :: "ml_results option"

record ml_config =
  cfg_roof_classifier :: "bool option"
  cfg_sky_classifier :: "bool option"

text \<open>\<open>round(x, 3)\<close> in exact arithmetic.\<close>

definition round3 :: "rat \<Rightarrow> rat" where
  "round3 x = of_int (round_half_even (x * 1000)) / 1000"

definition default_results :: ml_results where
  "default_results = \<lparr>roof_status = ''N/A'', roof_confidence = None, sky_condition = ''N/A'',
     sky_confidence = None, stars_visible = None, star_density = None, moon_visible = None\<rparr>"

text \<open>
  The roof block (lines 222 to 236). The status is stored before the confidence
  is converted, so a confidence that cannot be converted leaves the status set.
\<close>

definition roof_block ::
  "ml_service \<Rightarrow> ml_config \<Rightarrow> ndarray \<Rightarrow> model_meta \<Rightarrow> ml_results \<Rightarrow> ml_results" where
  "roof_block svc config image_array meta results =
     (case roof_classifier svc of
        None \<Rightarrow> results
      | Some predict \<Rightarrow>
          if \<not> dict_get (cfg_roof_classifier config) True then results
          else
            (case predict image_array meta of
               Inl e \<Rightarrow> results
             | Inr res \<Rightarrow>
                 let r1 = results\<lparr>roof_status := (if roof_open res then ''Open'' else ''Closed'')\<rparr>
                 in (case confidence res of
                       None \<Rightarrow> r1
                     | Some c \<Rightarrow> r1\<lparr>roof_confidence := Some (round3 c)\<rparr>)))"

text \<open>The sky block (lines 239 to 261), assignment by assignment.\<close>

definition sky_block ::
  "ml_service \<Rightarrow> ml_config \<Rightarrow> ndarray \<Rightarrow> model_meta \<Rightarrow> ml_results \<Rightarrow> ml_results" where
  "sky_block svc config image_array meta results =
     (case sky_classifier svc of
        None \<Rightarrow> results
      | Some predict \<Rightarrow>
          if \<not> (dict_get (cfg_sky_classifier config) True \<and> roof_status results = ''Open'')
          then results
          else
            (case predict image_array meta of
               Inl e \<Rightarrow> results
             | Inr res \<Rightarrow>
                 let r1 = results\<lparr>sky_condition := r_sky_condition res\<rparr>
                 in (case r_sky_confidence res of
                       None \<Rightarrow> r1
                     | Some c \<Rightarrow>
                         let r2 = r1\<lparr>sky_confidence := Some (round3 c),
                                     stars_visible := r_stars_visible res\<rparr>
                         in (case r_star_density res of
                               None \<Rightarrow> r2
                             | Some d \<Rightarrow> r2\<lparr>star_density := Some (round3 d),
                                              moon_visible := r_moon_visible res\<rparr>))))"

text \<open>
  The context handed to both classifiers (lines 224 to 229 and 244 to 251; the
  roof classifier is given the first four entries only).
\<close>

definition build_meta :: "corner_analysis \<Rightarrow> time_context \<Rightarrow> model_meta" where
  "build_meta ca tc =
     \<lparr>m_corner_to_center_ratio = corner_to_center_ratio ca,
      m_median_lum = center_med ca,
      m_is_astronomical_night = tc_is_astronomical_night tc,
      m_hour = tc_hour tc,
      m_moon_illumination = 0, m_moon_is_up = False\<rparr>"

text \<open>
  \<open>analyze_image\<close>. The two helper calls stand outside every \<open>try\<close>, so an
  exception of theirs would leave the method.
\<close>

definition analyze_image ::
  "nat option \<Rightarrow> ml_service \<Rightarrow> ndarray \<Rightarrow> ml_config \<Rightarrow> exn + ml_results \<times> ml_service" where
  "analyze_image now_hour svc image_array config =
     (case compute_corner_analysis image_array of
        Inl e \<Rightarrow> Inl e
      | Inr ca \<Rightarrow>
          (case compute_time_context now_hour of
             Inl e \<Rightarrow> Inl e
           | Inr tc \<Rightarrow>
               let r1 = roof_block svc config image_array (build_meta ca tc) default_results;
                   r2 = sky_block svc config image_array (build_meta ca tc) r1
               in Inr (r2, svc\<lparr>last_results := Some r2\<rparr>)))"

subsection \<open>Sample buffers and classifiers\<close>

definition flat8 :: "rat \<Rightarrow> ndarray" where
  "flat8 v = Gray2 (replicate 8 (replicate 8 v))"

definition roof_says_open :: "ndarray \<Rightarrow> model_meta \<Rightarrow> exn + roof_result" where
  "roof_says_open img meta = Inr \<lparr>roof_open = True, confidence = Some (9 / 10)\<rparr>"

definition sky_raises :: "ndarray \<Rightarrow> model_meta \<Rightarrow> exn + sky_result" where
  "sky_raises img meta = Inl ValueError"

definition no_models :: ml_service where
  "no_models = \<lparr>roof_classifier = None, sky_classifier = None, last_results = None\<rparr>"

definition no_config :: ml_config where
  "no_config = \<lparr>cfg_roof_classifier = None, cfg_sky_classifier = None\<rparr>"

definition roof_raises :: "ndarray \<Rightarrow> model_meta \<Rightarrow> exn + roof_result" where
  "roof_raises img meta = Inl ValueError"

section \<open>Properties of the safety signal writer\<close>

lemma tmp_neq: "p @ ''.tmp'' \<noteq> p"
  by simp

lemma cleanup_temp_other:
  "q \<noteq> t \<Longrightarrow> files (cleanup_temp env fs t) q = files fs q"
  by (auto simp: cleanup_temp_def os_remove_def split: sum.splits if_splits)

lemma cleanup_temp_gone:
  "files (cleanup_temp env fs t) t = None \<or> remove_fails env \<or> t \<in> dirs (cleanup_temp env fs t)"
  by (auto simp: cleanup_temp_def os_remove_def path_exists_def split: sum.splits if_splits)

lemma makedirs_files: "files (makedirs fs d) = files fs"
  by (simp add: makedirs_def)

lemma atomic_write_cases:
  assumes aw: "atomic_write env w c fs = (res, w', fs')"
  shows "(res = Inr True \<and> files fs' (file_path w) = Some c
            \<and> files fs' (file_path w @ ''.tmp'') = None
            \<and> last_status w' = Some (first_line c))
   \<or> (res = Inr False \<and> fs' = fs \<and> w' = w)
   \<or> ((\<exists>e. res = Inl e) \<and> w' = w \<and> files fs' (file_path w) = files fs (file_path w)
        \<and> (files fs' (file_path w @ ''.tmp'') = None \<or> remove_fails env
             \<or> file_path w @ ''.tmp'' \<in> dirs fs'))"
proof -
  define need_dir where
    "need_dir \<longleftrightarrow> dirname (file_path w) \<noteq> [] \<and> \<not> path_exists fs (dirname (file_path w))"
  define fs1 where "fs1 = (if need_dir then makedirs fs (dirname (file_path w)) else fs)"
  define tmp where "tmp = file_path w @ ''.tmp''"
  define c1 where "c1 \<longleftrightarrow> need_dir \<and> makedirs_fails env"
  define c2 where "c2 \<longleftrightarrow> open_fails env \<or> tmp \<in> dirs fs1"
  define c4 where
    "c4 \<longleftrightarrow> replace_fails env \<or> file_path w \<in> dirs (fs1\<lparr>files := (files fs1)(tmp \<mapsto> c)\<rparr>)"
  have ne: "file_path w \<noteq> tmp"
    by (simp add: tmp_def)
  have aw': "(res, w', fs') =
     (if c1 then (Inr False, w, fs)
      else if c2
      then (Inl OSError, w, cleanup_temp env fs1 tmp)
      else if write_fails env
      then (Inl OSError, w,
            cleanup_temp env (fs1\<lparr>files := (files fs1)(tmp \<mapsto> take (partial_len env) c)\<rparr>) tmp)
      else if c4
      then (Inl OSError, w, cleanup_temp env (fs1\<lparr>files := (files fs1)(tmp \<mapsto> c)\<rparr>) tmp)
      else (Inr True,
            w\<lparr>last_write_time := Some (now_written env), last_status := Some (first_line c)\<rparr>,
            (fs1\<lparr>files := (files fs1)(tmp \<mapsto> c)\<rparr>)
              \<lparr>files := (files (fs1\<lparr>files := (files fs1)(tmp \<mapsto> c)\<rparr>))
                 (tmp := None, file_path w \<mapsto> c)\<rparr>))"
    unfolding aw [symmetric] atomic_write_def Let_def c1_def c2_def c4_def need_dir_def
      fs1_def tmp_def
    by (rule refl)
  have f1: "files fs1 = files fs"
    by (simp add: fs1_def makedirs_files)
  have failed: "(\<exists>e. r = Inl e) \<and> files (cleanup_temp env fsx tmp) (file_path w) = files fs (file_path w)
        \<and> (files (cleanup_temp env fsx tmp) tmp = None \<or> remove_fails env
             \<or> tmp \<in> dirs (cleanup_temp env fsx tmp))"
    if "r = Inl OSError" and "files fsx (file_path w) = files fs (file_path w)" for r fsx
    using that ne cleanup_temp_gone [of env fsx tmp] cleanup_temp_other [of "file_path w" tmp env fsx]
    by simp
  consider (mk) "c1" | (op) "\<not> c1" "c2" | (wr) "\<not> c1" "\<not> c2" "write_fails env"
    | (rp) "\<not> c1" "\<not> c2" "\<not> write_fails env" "c4"
    | (ok) "\<not> c1" "\<not> c2" "\<not> write_fails env" "\<not> c4"
    by blast
  then show ?thesis
  proof cases
    case mk
    with aw' have "res = Inr False \<and> fs' = fs \<and> w' = w"
      by simp
    then show ?thesis by simp
  next
    case op
    with aw' have "res = Inl OSError" "w' = w" "fs' = cleanup_temp env fs1 tmp"
      by simp_all
    with failed [of res fs1] f1 show ?thesis
      unfolding tmp_def by simp
  next
    case wr
    let ?fsx = "fs1\<lparr>files := (files fs1)(tmp \<mapsto> take (partial_len env) c)\<rparr>"
    from wr aw' have "res = Inl OSError" "w' = w" "fs' = cleanup_temp env ?fsx tmp"
      by simp_all
    moreover have "files ?fsx (file_path w) = files fs (file_path w)"
      using ne f1 by simp
    ultimately show ?thesis
      using failed [of res ?fsx] unfolding tmp_def by simp
  next
    case rp
    let ?fsx = "fs1\<lparr>files := (files fs1)(tmp \<mapsto> c)\<rparr>"
    from rp aw' have "res = Inl OSError" "w' = w" "fs' = cleanup_temp env ?fsx tmp"
      by simp_all
    moreover have "files ?fsx (file_path w) = files fs (file_path w)"
      using ne f1 by simp
    ultimately show ?thesis
      using failed [of res ?fsx] unfolding tmp_def by simp
  next
    case ok
    with aw' have "res = Inr True"
      "w' = w\<lparr>last_write_time := Some (now_written env), last_status := Some (first_line c)\<rparr>"
      "fs' = fs1\<lparr>files := (files fs1)(tmp := None, file_path w \<mapsto> c)\<rparr>"
      by simp_all
    then show ?thesis
      using ne unfolding tmp_def by simp
  qed
qed

lemma write_status_proceeds:
  "proceeds w d \<Longrightarrow> atomic_write env w (join_lines (status_lines env w d)) fs = (res, w', fs')
    \<Longrightarrow> write_status env w d fs = ((case res of Inr b \<Rightarrow> b | Inl e \<Rightarrow> False), w', fs')"
  by (auto simp: write_status_def proceeds_def split: option.splits sum.splits)

lemma write_status_not_proceeds:
  "\<not> proceeds w d \<Longrightarrow> write_status env w d fs = (False, w, fs)"
  by (auto simp: write_status_def proceeds_def split: option.splits)


text \<open>
  Claim C1. Whatever dictionary is passed, when the roof status is \<open>N/A\<close> (also by
  default, the key missing), or when a confidence is present and strictly below
  \<open>min_confidence\<close>, \<open>write_status\<close> returns \<open>False\<close> and leaves the whole file
  system, hence the target file, and the writer's bookkeeping as they were.
\<close>

theorem write_status_skips:
  "dict_get (d_roof_status d) ''N/A'' = ''N/A''
     \<or> (\<exists>c. d_roof_confidence d = Some c \<and> c < min_confidence w)
   \<Longrightarrow> write_status env w d fs = (False, w, fs)"
  by (auto simp: write_status_def)


theorem write_status_skips_witness:
  "write_status demo_env demo_writer
     \<lparr>d_roof_status = Some ''Open'', d_roof_confidence = Some (1 / 2),
      d_sky_condition = None, d_sky_confidence = None\<rparr> demo_fs
   = (False, demo_writer, demo_fs)
   \<and> write_status demo_env demo_writer
     \<lparr>d_roof_status = Some ''N/A'', d_roof_confidence = None,
      d_sky_condition = None, d_sky_confidence = None\<rparr> demo_fs
   = (False, demo_writer, demo_fs)"
proof -
  have a: "\<exists>c. d_roof_confidence \<lparr>d_roof_status = Some ''Open'', d_roof_confidence = Some (1 / 2),
      d_sky_condition = None, d_sky_confidence = None\<rparr> = Some c \<and> c < min_confidence demo_writer"
    by (rule exI [of _ "1 / 2"]) (simp add: demo_writer_def)
  have b: "dict_get (d_roof_status \<lparr>d_roof_status = Some ''N/A'', d_roof_confidence = None,
      d_sky_condition = None, d_sky_confidence = None\<rparr>) ''N/A'' = ''N/A''"
    by (simp add: dict_get_def)
  show ?thesis
    using write_status_skips [OF disjI2, OF a] write_status_skips [OF disjI1, OF b]
    by simp
qed



text \<open>
  Claim C4. The target path only ever holds its prior content or the complete new
  document: a call that returns \<open>True\<close> has put the full content at the target
  and no temp file remains; a call that returns \<open>False\<close> has left the target's
  content as it was. When \<open>_atomic_write\<close> raises (a failure of \<open>open\<close>, of
  \<open>write\<close> or of \<open>os.replace\<close>), \<open>write_status\<close> returns \<open>False\<close>, and the temp
  file is gone unless its removal failed or the temp path is a directory.
\<close>

theorem write_status_atomic:
  "write_status env w d fs = (r, w', fs') \<Longrightarrow>
     (r \<longrightarrow> files fs' (file_path w) = Some (join_lines (status_lines env w d))
          \<and> files fs' (file_path w @ ''.tmp'') = None)
   \<and> (\<not> r \<longrightarrow> files fs' (file_path w) = files fs (file_path w))
   \<and> (\<forall>e. proceeds w d
           \<and> fst (atomic_write env w (join_lines (status_lines env w d)) fs) = Inl e
        \<longrightarrow> \<not> r \<and> (files fs' (file_path w @ ''.tmp'') = None \<or> remove_fails env
                     \<or> file_path w @ ''.tmp'' \<in> dirs fs'))"
proof (cases "proceeds w d")
  case False
  assume "write_status env w d fs = (r, w', fs')"
  with False show ?thesis
    by (simp add: write_status_not_proceeds)
next
  case True
  assume ws: "write_status env w d fs = (r, w', fs')"
  obtain res w1 fs1 where aw:
    "atomic_write env w (join_lines (status_lines env w d)) fs = (res, w1, fs1)"
    by (cases "atomic_write env w (join_lines (status_lines env w d)) fs") auto
  from write_status_proceeds [OF True aw] ws
  have r: "r = (case res of Inr b \<Rightarrow> b | Inl e \<Rightarrow> False)" and "w' = w1" and f: "fs' = fs1"
    by simp_all
  have e: "fst (atomic_write env w (join_lines (status_lines env w d)) fs) = res"
    by (simp add: aw)
  from atomic_write_cases [OF aw] show ?thesis
    unfolding e r f by (elim disjE conjE exE) simp_all
qed


theorem write_status_atomic_witness:
  "\<not> fst (write_status (demo_env\<lparr>replace_fails := True\<rparr>) demo_writer demo_dict demo_fs)
   \<and> files (snd (snd (write_status (demo_env\<lparr>replace_fails := True\<rparr>) demo_writer demo_dict
        demo_fs))) ''/obs/roof.txt'' = Some ''old''
   \<and> files (snd (snd (write_status (demo_env\<lparr>replace_fails := True\<rparr>) demo_writer demo_dict
        demo_fs))) ''/obs/roof.txt.tmp'' = None"
proof -
  let ?env = "demo_env\<lparr>replace_fails := True\<rparr>"
  let ?X = "write_status ?env demo_writer demo_dict demo_fs"
  have h: "?X = (fst ?X, fst (snd ?X), snd (snd ?X))"
    by simp
  have nr: "\<not> fst ?X"
    by code_simp
  have p: "proceeds demo_writer demo_dict"
    by code_simp
  have e: "fst (atomic_write ?env demo_writer
             (join_lines (status_lines ?env demo_writer demo_dict)) demo_fs) = Inl OSError"
    by code_simp
  have rf: "\<not> remove_fails ?env"
    by (simp add: demo_env_def)
  have nd: "file_path demo_writer @ ''.tmp'' \<notin> dirs (snd (snd ?X))"
    by code_simp
  have fp: "file_path demo_writer = ''/obs/roof.txt''"
    by (simp add: demo_writer_def)
  have old: "files demo_fs ''/obs/roof.txt'' = Some ''old''"
    by (simp add: demo_fs_def)
  note T = write_status_atomic [OF h]
  from T nr have a: "files (snd (snd ?X)) (file_path demo_writer)
      = files demo_fs (file_path demo_writer)"
    by blast
  from T p e rf nd have b: "files (snd (snd ?X)) (file_path demo_writer @ ''.tmp'') = None"
    by blast
  from a b nr show ?thesis
    unfolding fp old by simp
qed


text \<open>
  Claim C9. After a successful \<open>write_status\<close> the target holds: the line
  \<open>preamble trigger\<close>, with the open trigger for status \<open>Open\<close> and the closed
  trigger for \<open>Closed\<close>; a \<open>Confidence:\<close> line when enabled and a confidence is
  present; a \<open>Sky Condition:\<close> line when enabled and the condition is known, with
  its percentage when the sky confidence is present; and the \<open>Updated:\<close> line.
  When preamble and trigger hold no line break, that first line is also what the
  writer records as its last status.
\<close>

theorem write_status_content:
  "write_status env w d fs = (True, w', fs') \<Longrightarrow>
   (let roof_status = dict_get (d_roof_status d) ''N/A'';
        sky_condition = dict_get (d_sky_condition d) ''N/A'';
        trigger = (if roof_status = ''Open'' then open_trigger w else closed_trigger w);
        line1 = preamble w @ '' '' @ trigger;
        content =
          line1 @ [newline]
          @ (case d_roof_confidence d of
               Some c \<Rightarrow> if include_confidence w
                         then ''Confidence: '' @ format_pct env c @ [newline] else []
             | None \<Rightarrow> [])
          @ (if include_sky_condition w \<and> sky_condition \<noteq> ''N/A''
             then ''Sky Condition: '' @ sky_condition
                  @ (case d_sky_confidence d of
                       Some sc \<Rightarrow> '' ('' @ format_pct env sc @ '')'' | None \<Rightarrow> [])
                  @ [newline]
             else [])
          @ ''Updated: '' @ now_formatted env @ [newline]
    in files fs' (file_path w) = Some content
       \<and> (roof_status = ''Open'' \<longrightarrow> trigger = open_trigger w)
       \<and> (roof_status = ''Closed'' \<longrightarrow> trigger = closed_trigger w)
       \<and> (newline \<notin> set line1 \<longrightarrow>
            first_line content = line1 \<and> last_status w' = Some line1))"
proof -
  assume ws: "write_status env w d fs = (True, w', fs')"
  have p: "proceeds w d"
    using ws write_status_not_proceeds [of w d env fs] by (cases "proceeds w d") auto
  obtain res w1 fs1 where aw:
    "atomic_write env w (join_lines (status_lines env w d)) fs = (res, w1, fs1)"
    by (cases "atomic_write env w (join_lines (status_lines env w d)) fs") auto
  from write_status_proceeds [OF p aw] ws
  have "res = Inr True" and w: "w' = w1" and f: "fs' = fs1"
    by (auto split: sum.splits)
  with atomic_write_cases [OF aw]
  have c: "files fs' (file_path w) = Some (join_lines (status_lines env w d))"
    and l: "last_status w' = Some (first_line (join_lines (status_lines env w d)))"
    by auto
  define line1 where "line1 = preamble w @ '' ''
     @ (if dict_get (d_roof_status d) ''N/A'' = ''Open'' then open_trigger w else closed_trigger w)"
  define rest where "rest =
          (case d_roof_confidence d of
               Some c \<Rightarrow> if include_confidence w
                         then ''Confidence: '' @ format_pct env c @ [newline] else []
             | None \<Rightarrow> [])
          @ (if include_sky_condition w \<and> dict_get (d_sky_condition d) ''N/A'' \<noteq> ''N/A''
             then ''Sky Condition: '' @ dict_get (d_sky_condition d) ''N/A''
                  @ (case d_sky_confidence d of
                       Some sc \<Rightarrow> '' ('' @ format_pct env sc @ '')'' | None \<Rightarrow> [])
                  @ [newline]
             else [])
          @ ''Updated: '' @ now_formatted env @ [newline]"
  have eq: "join_lines (status_lines env w d) = line1 @ [newline] @ rest"
    by (simp add: status_lines_def join_lines_def Let_def line1_def rest_def split: option.splits)
  have fl: "newline \<notin> set line1 \<Longrightarrow> first_line (line1 @ [newline] @ rest) = line1"
    by (induction line1) (auto simp: first_line_def)
  from c eq have c': "files fs' (file_path w) = Some (line1 @ [newline] @ rest)"
    by simp
  from l eq have l': "last_status w' = Some (first_line (line1 @ [newline] @ rest))"
    by simp
  have t1: "dict_get (d_roof_status d) ''N/A'' = ''Open'' \<longrightarrow>
      (if dict_get (d_roof_status d) ''N/A'' = ''Open'' then open_trigger w
       else closed_trigger w) = open_trigger w"
    by simp
  have t2: "dict_get (d_roof_status d) ''N/A'' = ''Closed'' \<longrightarrow>
      (if dict_get (d_roof_status d) ''N/A'' = ''Open'' then open_trigger w
       else closed_trigger w) = closed_trigger w"
    by simp
  have t3: "newline \<notin> set line1 \<longrightarrow>
      first_line (line1 @ [newline] @ rest) = line1 \<and> last_status w' = Some line1"
    using fl l' by simp
  show ?thesis
    unfolding Let_def
    using c' t1 t2 t3 unfolding line1_def rest_def
    by (intro conjI) assumption+
qed

theorem write_status_content_witness:
  "fst (write_status demo_env demo_writer demo_dict demo_fs)
   \<and> files (snd (snd (write_status demo_env demo_writer demo_dict demo_fs))) ''/obs/roof.txt''
       = Some (''Roof Status: OPEN'' @ [newline] @ ''Confidence: 92%'' @ [newline]
               @ ''Sky Condition: Clear (87%)'' @ [newline]
               @ ''Updated: 2025-01-02 03:04:05'' @ [newline])
   \<and> last_status (fst (snd (write_status demo_env demo_writer demo_dict demo_fs)))
       = Some ''Roof Status: OPEN''"
proof -
  let ?X = "write_status demo_env demo_writer demo_dict demo_fs"
  have t: "fst ?X"
    by code_simp
  then have h: "?X = (True, fst (snd ?X), snd (snd ?X))"
    by (metis prod.collapse)
  have p1: "percent0 (23 / 25) = ''92%''"
    by (simp add: percent0_def round_half_even_def digits.simps digit_char_def)
  have "round_half_even (871 / 10) = 87"
    by code_simp
  then have p2: "percent0 (871 / 1000) = ''87%''"
    by (simp add: percent0_def digits.simps digit_char_def)
  have v: "file_path demo_writer = ''/obs/roof.txt''" "preamble demo_writer = ''Roof Status:''"
    "open_trigger demo_writer = ''OPEN''" "include_confidence demo_writer"
    "include_sky_condition demo_writer" "d_roof_status demo_dict = Some ''Open''"
    "d_roof_confidence demo_dict = Some (92 / 100)" "d_sky_condition demo_dict = Some ''Clear''"
    "d_sky_confidence demo_dict = Some (871 / 1000)" "format_pct demo_env = percent0"
    "now_formatted demo_env = ''2025-01-02 03:04:05''"
    by (simp_all add: demo_writer_def demo_dict_def demo_env_def)
  from write_status_content [OF h] t show ?thesis
    by (simp add: Let_def v dict_get_def p1 p2 newline_def)
qed

section \<open>Properties of the RTSP bridge\<close>

text \<open>
  Two facts about \<open>update_image\<close> on a running bridge when nothing fails: a
  frame of the recorded size is stored with no subprocess action at all, and a
  frame of another size is stored after one terminate, wait and spawn.
\<close>

lemma update_image_same_size:
  "running s \<Longrightarrow> frame_size s = Some (width img, height img) \<Longrightarrow>
   update_image env s (Img img) =
     s\<lparr>last_frame := Some (bgr_bytes img),
       events := events s @ [Store_frame, Log ''RTSP frame updated'']\<rparr>"
  by (simp add: update_image_def log_event_def)

lemma update_image_new_size:
  "running s \<Longrightarrow> process s = Some p \<Longrightarrow> frame_size s \<noteq> Some (width img, height img) \<Longrightarrow>
   \<not> wait_times_out env \<Longrightarrow> \<not> popen_fails env \<Longrightarrow>
   update_image env s (Img img) =
     s\<lparr>process := Some \<lparr>video_size = (width img, height img), terminated = False,
                         killed = False\<rparr>,
       frame_size := Some (width img, height img),
       last_frame := Some (bgr_bytes img),
       events := events s @ [Log ''RTSP frame size changed'', Terminate, Wait_ok,
                             Spawn (width img) (height img),
                             Log ''RTSP ffmpeg restarted with new frame size'',
                             Store_frame, Log ''RTSP frame updated'']\<rparr>"
  by (simp add: update_image_def restart_ffmpeg_def log_event_def Let_def eq_commute [of "Some _"])

text \<open>
  The two places that end a subprocess differ: \<open>stop\<close> kills when its wait times
  out, \<open>_restart_ffmpeg\<close> never kills and then keeps the old subprocess.
\<close>

lemma stop_kills_after_timeout:
  "running s \<Longrightarrow> process s = Some p \<Longrightarrow> wait_times_out env \<Longrightarrow>
   Kill \<in> set (events (stop env s)) \<and> \<not> running (stop env s)"
  by (simp add: stop_def log_event_def Let_def)

lemma restart_ffmpeg_never_kills:
  "Kill \<notin> set (events s) \<Longrightarrow> Kill \<notin> set (events (restart_ffmpeg env s))"
  by (simp add: restart_ffmpeg_def log_event_def Let_def split: option.splits prod.splits)

lemma restart_ffmpeg_timeout_keeps_process:
  "process s = Some p \<Longrightarrow> wait_times_out env \<Longrightarrow>
   process (restart_ffmpeg env s) = Some (p\<lparr>terminated := True\<rparr>)"
  by (simp add: restart_ffmpeg_def log_event_def Let_def)

text \<open>
  Claim C3. The claim describes a restart as terminate, bounded wait, force-kill
  and respawn, once per frame of a new size. \<open>_restart_ffmpeg\<close> has no kill:
  when the two-second wait times out the exception is caught, nothing is
  spawned, and the frame is stored all the same. Evaluated on a running bridge
  whose encoder was started at 1920x1080 and a 2x1 frame: the encoder handle is
  still the old one, the recorded frame size is already the new one, and the
  trace holds neither a kill nor a spawn; a second frame of the same size is
  then stored with no subprocess action at all. \<open>stop\<close> does kill after its
  timeout.
\<close>

theorem update_image_restart_timeout:
  "update_image (rtsp_ok\<lparr>wait_times_out := True\<rparr>) demo_rtsp (Img small_frame) =
     demo_rtsp\<lparr>process := Some \<lparr>video_size = (1920, 1080), terminated = True, killed = False\<rparr>,
       frame_size := Some (2, 1),
       last_frame := Some [3, 2, 1, 6, 5, 4],
       events := [Log ''RTSP frame size changed'', Terminate, Wait_timeout,
                  Log ''Error restarting RTSP ffmpeg'', Store_frame,
                  Log ''RTSP frame updated'']\<rparr>
   \<and> update_image rtsp_ok
       (update_image (rtsp_ok\<lparr>wait_times_out := True\<rparr>) demo_rtsp (Img small_frame))
       (Img small_frame) =
     demo_rtsp\<lparr>process := Some \<lparr>video_size = (1920, 1080), terminated = True, killed = False\<rparr>,
       frame_size := Some (2, 1),
       last_frame := Some [3, 2, 1, 6, 5, 4],
       events := [Log ''RTSP frame size changed'', Terminate, Wait_timeout,
                  Log ''Error restarting RTSP ffmpeg'', Store_frame,
                  Log ''RTSP frame updated'', Store_frame, Log ''RTSP frame updated'']\<rparr>"
  by (simp add: update_image_def restart_ffmpeg_def log_event_def Let_def demo_rtsp_def
      small_frame_def rtsp_ok_def bgr_bytes_def)

text \<open>
  Claim C10. On a bridge that is not running, \<open>update_image\<close> returns the bridge
  exactly as it was: last frame, frame size, subprocess handle and trace are
  unchanged, whatever the input and the environment.
\<close>

theorem update_image_not_running:
  "\<not> running s \<Longrightarrow> update_image env s image_input = s"
  by (simp add: update_image_def)

theorem update_image_not_running_witness:
  "update_image rtsp_ok (demo_rtsp\<lparr>running := False\<rparr>) (Img small_frame)
     = demo_rtsp\<lparr>running := False\<rparr>"
proof -
  have "\<not> running (demo_rtsp\<lparr>running := False\<rparr>)"
    by simp
  then show ?thesis
    by (rule update_image_not_running)
qed

text \<open>
  The pump loop up to a broken pipe: earlier iterations only append to the
  trace, and the iteration with the broken pipe logs and leaves the loop.
\<close>

lemma sender_iterations_quiet:
  assumes "running s" "process s \<noteq> None" "last_frame s \<noteq> None"
    and "\<forall>t \<in> set pre. \<not> exited t \<and> wr t \<noteq> Broken_pipe"
    and "\<not> exited t" "wr t = Broken_pipe"
  shows "\<exists>evs. sender_iterations s (pre @ t # rest) =
           (s\<lparr>events := events s @ evs @ [Log ''RTSP ffmpeg pipe broken'',
                                          Log ''RTSP frame sender thread stopped'']\<rparr>,
            Returned)"
  using assms
proof (induction pre arbitrary: s)
  case Nil
  then show ?case
    by (auto simp: log_event_def intro: exI [of _ "[]"])
next
  case (Cons a pre)
  from Cons.prems obtain fb where fb: "last_frame s = Some fb"
    by auto
  from Cons.prems have a: "\<not> exited a" "wr a \<noteq> Broken_pipe"
    by simp_all
  show ?case
  proof (cases "wr a")
    case Write_ok
    let ?s = "s\<lparr>events := events s @ [Sent (length fb)]\<rparr>"
    have "\<exists>evs. sender_iterations ?s (pre @ t # rest) =
           (?s\<lparr>events := events ?s @ evs @ [Log ''RTSP ffmpeg pipe broken'',
                                          Log ''RTSP frame sender thread stopped'']\<rparr>,
            Returned)"
      using Cons.prems fb by (intro Cons.IH) simp_all
    then obtain evs where "sender_iterations ?s (pre @ t # rest) =
           (?s\<lparr>events := events ?s @ evs @ [Log ''RTSP ffmpeg pipe broken'',
                                          Log ''RTSP frame sender thread stopped'']\<rparr>,
            Returned)" ..
    then show ?thesis
      using Cons.prems fb a Write_ok
      by (intro exI [of _ "Sent (length fb) # evs"]) simp
  next
    case Broken_pipe
    with a show ?thesis by simp
  next
    case Write_error
    let ?s = "log_event ''Error sending frame to RTSP'' s"
    have "\<exists>evs. sender_iterations ?s (pre @ t # rest) =
           (?s\<lparr>events := events ?s @ evs @ [Log ''RTSP ffmpeg pipe broken'',
                                          Log ''RTSP frame sender thread stopped'']\<rparr>,
            Returned)"
      using Cons.prems fb by (intro Cons.IH) (simp_all add: log_event_def)
    then obtain evs where "sender_iterations ?s (pre @ t # rest) =
           (?s\<lparr>events := events ?s @ evs @ [Log ''RTSP ffmpeg pipe broken'',
                                          Log ''RTSP frame sender thread stopped'']\<rparr>,
            Returned)" ..
    then show ?thesis
      using Cons.prems fb a Write_error
      by (intro exI [of _ "Log ''Error sending frame to RTSP'' # evs"])
         (simp add: log_event_def)
  qed
qed

lemma demo_url: "get_url demo_rtsp = Some ''rtsp://0.0.0.0:8554/asiwatchdog''"
  by (simp add: get_url_def demo_rtsp_def digits.simps digit_char_def)


text \<open>
  Claim C6, as stated, fails: after a broken pipe the pump has returned, but the
  bridge still reports running and still hands out its URL.
\<close>

theorem broken_pipe_still_running:
  "running (fst (frame_sender_loop demo_rtsp [broken_tick]))
   \<and> get_url (fst (frame_sender_loop demo_rtsp [broken_tick]))
       = Some ''rtsp://0.0.0.0:8554/asiwatchdog''"
proof -
  have "frame_sender_loop demo_rtsp [broken_tick] =
      (log_event ''RTSP frame sender thread stopped''
         (log_event ''RTSP ffmpeg pipe broken'' demo_rtsp), Returned)"
    by (simp add: frame_sender_loop_def demo_rtsp_def broken_tick_def)
  moreover have "running demo_rtsp"
    by (simp add: demo_rtsp_def)
  ultimately show ?thesis
    using demo_url by (simp add: log_event_def get_url_def)
qed

text \<open>
  Claim C6, amended. When an iteration of the pump meets a broken pipe (the
  bridge running, a subprocess and a frame present, earlier iterations without
  exit or broken pipe), the thread function returns, the diagnostic is in the
  trace, and the pump changes neither the running flag, nor the URL, nor the
  subprocess handle: the bridge keeps reporting running until \<open>stop\<close> is called.
\<close>

theorem broken_pipe_stops_pump_only:
  assumes "running s" "process s \<noteq> None" "last_frame s \<noteq> None" "fps s \<noteq> 0"
    and "\<forall>t \<in> set pre. \<not> exited t \<and> wr t \<noteq> Broken_pipe"
    and "\<not> exited t" "wr t = Broken_pipe"
  shows "snd (frame_sender_loop s (pre @ t # rest)) = Returned
     \<and> Log ''RTSP ffmpeg pipe broken'' \<in> set (events (fst (frame_sender_loop s (pre @ t # rest))))
     \<and> running (fst (frame_sender_loop s (pre @ t # rest)))
     \<and> get_url (fst (frame_sender_loop s (pre @ t # rest))) = get_url s
     \<and> get_url s \<noteq> None
     \<and> process (fst (frame_sender_loop s (pre @ t # rest))) = process s"
proof -
  from sender_iterations_quiet [OF assms(1-3) assms(5-7), of rest]
  obtain evs where "sender_iterations s (pre @ t # rest) =
           (s\<lparr>events := events s @ evs @ [Log ''RTSP ffmpeg pipe broken'',
                                          Log ''RTSP frame sender thread stopped'']\<rparr>,
            Returned)" ..
  with assms(1,4) show ?thesis
    by (simp add: frame_sender_loop_def get_url_def)
qed

theorem broken_pipe_stops_pump_only_witness:
  "snd (frame_sender_loop demo_rtsp [\<lparr>exited = False, wr = Write_ok\<rparr>, broken_tick]) = Returned
   \<and> running (fst (frame_sender_loop demo_rtsp
         [\<lparr>exited = False, wr = Write_ok\<rparr>, broken_tick]))
   \<and> get_url (fst (frame_sender_loop demo_rtsp
         [\<lparr>exited = False, wr = Write_ok\<rparr>, broken_tick])) \<noteq> None"
proof -
  have h: "running demo_rtsp" "process demo_rtsp \<noteq> None" "last_frame demo_rtsp \<noteq> None"
    "fps demo_rtsp \<noteq> 0"
    by (simp_all add: demo_rtsp_def)
  have p: "\<forall>t \<in> set [\<lparr>exited = False, wr = Write_ok\<rparr>]. \<not> exited t \<and> wr t \<noteq> Broken_pipe"
    by simp
  have b: "\<not> exited broken_tick" "wr broken_tick = Broken_pipe"
    by (simp_all add: broken_tick_def)
  from broken_pipe_stops_pump_only [OF h p b, of "[]"] show ?thesis
    by simp
qed

section \<open>Properties of the storage eviction\<close>

text \<open>
  Removing one file lowers the size of a directory by that file's size when the
  file lies under it; the loop never touches directories, only ever shrinks the
  file list, and keeps every file whose path it is not given.
\<close>

lemma size_after_remove:
  "distinct (map fst fs) \<Longrightarrow> f \<in> set fs \<Longrightarrow>
   sum_list (map f_size (filter (\<lambda>g. under D (fst g)) (filter (\<lambda>g. fst g \<noteq> fst f) fs)))
   = sum_list (map f_size (filter (\<lambda>g. under D (fst g)) fs))
     - (if under D (fst f) then f_size f else 0)"
proof (induction fs)
  case Nil
  then show ?case by simp
next
  case (Cons a fs)
  show ?case
  proof (cases "a = f")
    case True
    with Cons.prems have "\<forall>g \<in> set fs. fst g \<noteq> fst f"
      by (auto simp: image_iff)
    then have "filter (\<lambda>g. fst g \<noteq> fst f) fs = fs"
      by (simp add: filter_id_conv)
    with True show ?thesis by simp
  next
    case False
    with Cons.prems have "f \<in> set fs" "fst a \<noteq> fst f"
      by (auto simp: image_iff)
    with Cons show ?thesis by simp
  qed
qed

lemma remove_file_Inr:
  "remove_file rm_fails dk p = Inr dk' \<Longrightarrow>
   dk' = dk\<lparr>d_files := filter (\<lambda>f. fst f \<noteq> p) (d_files dk)\<rparr> \<and> \<not> rm_fails p"
  by (auto simp: remove_file_def split: if_splits)

lemma remove_file_Inl:
  "remove_file rm_fails dk (fst f) = Inl e \<Longrightarrow> f \<in> set (d_files dk) \<Longrightarrow> rm_fails (fst f)"
  by (auto simp: remove_file_def split: if_splits)

lemma delete_files_loop_dirs:
  "d_dirs (on_disk (delete_files_loop rm_fails C xs st)) = d_dirs (on_disk st)"
proof (induction xs arbitrary: st)
  case Nil
  then show ?case by simp
next
  case (Cons f xs)
  show ?case
    by (auto simp: Cons.IH split: sum.splits dest!: remove_file_Inr)
qed

lemma delete_files_loop_subset:
  "set (d_files (on_disk (delete_files_loop rm_fails C xs st))) \<subseteq> set (d_files (on_disk st))"
proof (induction xs arbitrary: st)
  case Nil
  then show ?case by simp
next
  case (Cons f xs)
  show ?case
  proof (cases "current_size st \<le> C")
    case True
    then show ?thesis by simp
  next
    case False
    show ?thesis
    proof (cases "remove_file rm_fails (on_disk st) (fst f)")
      case (Inl e)
      with False Cons.IH [of st] show ?thesis by simp
    next
      case (Inr dk')
      let ?st = "st\<lparr>on_disk := dk', current_size := current_size st - f_size f,
                     deleted_count := Suc (deleted_count st), deleted := deleted st @ [f]\<rparr>"
      from remove_file_Inr [OF Inr] have "set (d_files dk') \<subseteq> set (d_files (on_disk st))"
        by auto
      with Cons.IH [of ?st] False Inr show ?thesis by auto
    qed
  qed
qed

lemma delete_files_loop_keeps:
  "g \<in> set (d_files (on_disk st)) \<Longrightarrow> fst g \<notin> fst ` set xs \<Longrightarrow>
   g \<in> set (d_files (on_disk (delete_files_loop rm_fails C xs st)))"
proof (induction xs arbitrary: st)
  case Nil
  then show ?case by simp
next
  case (Cons f xs)
  show ?case
  proof (cases "current_size st \<le> C")
    case True
    with Cons.prems show ?thesis by simp
  next
    case False
    show ?thesis
    proof (cases "remove_file rm_fails (on_disk st) (fst f)")
      case (Inl e)
      with False Cons show ?thesis by simp
    next
      case (Inr dk')
      let ?st = "st\<lparr>on_disk := dk', current_size := current_size st - f_size f,
                     deleted_count := Suc (deleted_count st), deleted := deleted st @ [f]\<rparr>"
      from remove_file_Inr [OF Inr] Cons.prems have "g \<in> set (d_files (on_disk ?st))"
        by auto
      moreover from Cons.prems have "fst g \<notin> fst ` set xs"
        by simp
      ultimately have "g \<in> set (d_files (on_disk (delete_files_loop rm_fails C xs ?st)))"
        by (rule Cons.IH)
      with False Inr show ?thesis by simp
    qed
  qed
qed

lemma same_path_same_entry:
  "distinct (map fst fs) \<Longrightarrow> f \<in> set fs \<Longrightarrow> g \<in> set fs \<Longrightarrow> fst g = fst f \<Longrightarrow> g = f"
  by (auto simp: distinct_map inj_on_def)

lemma filter_path_is_filter_entry:
  assumes "distinct (map fst fs)" "f \<in> set fs"
  shows "filter (\<lambda>g. fst g \<noteq> fst f) fs = filter (\<lambda>g. g \<noteq> f) fs"
proof (rule filter_cong [OF refl])
  fix g assume "g \<in> set fs"
  with assms same_path_same_entry [of fs f g] show "(fst g \<noteq> fst f) = (g \<noteq> f)"
    by auto
qed

lemma delete_files_loop_inv:
  assumes "distinct (map fst (d_files (on_disk st)))"
    and "set xs \<subseteq> set (d_files (on_disk st))"
    and "distinct xs"
    and "\<forall>f \<in> set xs. under D (fst f)"
    and "current_size st = get_directory_size (on_disk st) D"
    and "sorted (map f_mtime xs)"
  shows "\<exists>ys. loop_post rm_fails C D xs st (delete_files_loop rm_fails C xs st) ys"
  using assms
proof (induction xs arbitrary: st)
  case Nil
  then show ?case
    by (intro exI [of _ "[]"]) (simp add: loop_post_def)
next
  case (Cons f xs)
  have fin: "f \<in> set (d_files (on_disk st))"
    using Cons.prems(2) by simp
  show ?case
  proof (cases "current_size st \<le> C")
    case True
    with Cons.prems(5) show ?thesis
      by (intro exI [of _ "[]"]) (simp add: loop_post_def)
  next
    case False
    show ?thesis
    proof (cases "remove_file rm_fails (on_disk st) (fst f)")
      case (Inl e)
      have step: "delete_files_loop rm_fails C (f # xs) st = delete_files_loop rm_fails C xs st"
        using False Inl by simp
      have "\<exists>ys. loop_post rm_fails C D xs st (delete_files_loop rm_fails C xs st) ys"
        using Cons.prems by (intro Cons.IH) simp_all
      then obtain ys where ys: "loop_post rm_fails C D xs st (delete_files_loop rm_fails C xs st) ys"
        ..
      have "rm_fails (fst f)"
        using remove_file_Inl [OF Inl fin] .
      with ys have "loop_post rm_fails C D (f # xs) st (delete_files_loop rm_fails C xs st) ys"
        unfolding loop_post_def by auto
      then show ?thesis
        unfolding step ..
    next
      case (Inr dk')
      let ?st = "st\<lparr>on_disk := dk', current_size := current_size st - f_size f,
                     deleted_count := Suc (deleted_count st), deleted := deleted st @ [f]\<rparr>"
      let ?st' = "delete_files_loop rm_fails C xs ?st"
      have step: "delete_files_loop rm_fails C (f # xs) st = ?st'"
        using False Inr by simp
      from remove_file_Inr [OF Inr]
      have dk': "d_files dk' = filter (\<lambda>g. fst g \<noteq> fst f) (d_files (on_disk st))"
        and ok: "\<not> rm_fails (fst f)"
        by simp_all
      have dk'': "d_files dk' = filter (\<lambda>g. g \<noteq> f) (d_files (on_disk st))"
        unfolding dk' using Cons.prems(1) fin by (rule filter_path_is_filter_entry)
      have p1: "distinct (map fst (d_files (on_disk ?st)))"
        using Cons.prems(1) by (simp add: dk' distinct_map_filter)
      have fx: "f \<notin> set xs"
        using Cons.prems(3) by simp
      have p2: "set xs \<subseteq> set (d_files (on_disk ?st))"
        using Cons.prems(2) fx by (auto simp: dk'')
      have p3: "distinct xs"
        using Cons.prems(3) by simp
      have p4: "\<forall>f \<in> set xs. under D (fst f)"
        using Cons.prems(4) by simp
      have uf: "under D (fst f)"
        using Cons.prems(4) by simp
      have p5: "current_size ?st = get_directory_size (on_disk ?st) D"
        using size_after_remove [OF Cons.prems(1) fin, of D] uf Cons.prems(5)
        by (simp add: get_directory_size_def dk')
      have p6: "sorted (map f_mtime xs)"
        using Cons.prems(6) by simp
      have "\<exists>ys. loop_post rm_fails C D xs ?st ?st' ys"
        using p1 p2 p3 p4 p5 p6 by (rule Cons.IH)
      then obtain ys where ys: "loop_post rm_fails C D xs ?st ?st' ys" ..
      have le: "\<forall>y \<in> set ys. f_mtime f \<le> f_mtime y"
        using ys Cons.prems(6) unfolding loop_post_def by auto
      have fil: "filter (\<lambda>g. g \<notin> set ys) (d_files dk')
                 = filter (\<lambda>g. g \<notin> set (f # ys)) (d_files (on_disk st))"
        unfolding dk'' filter_filter by (rule filter_cong) auto
      have nf: "f \<notin> set (d_files (on_disk ?st'))"
        using delete_files_loop_subset [of rm_fails C xs ?st] by (auto simp: dk'')
      have "loop_post rm_fails C D (f # xs) st ?st' (f # ys)"
        unfolding loop_post_def
      proof (intro conjI)
        show "deleted ?st' = deleted st @ f # ys"
          using ys unfolding loop_post_def by simp
        show "set (f # ys) \<subseteq> set (f # xs)"
          using ys unfolding loop_post_def by auto
        show "sorted (map f_mtime (f # ys))"
          using ys le unfolding loop_post_def by simp
        show "d_files (on_disk ?st') = filter (\<lambda>g. g \<notin> set (f # ys)) (d_files (on_disk st))"
          using ys fil unfolding loop_post_def by simp
        show "deleted_count ?st' = deleted_count st + length (f # ys)"
          using ys unfolding loop_post_def by simp
        show "current_size ?st' = current_size st - sum_list (map f_size (f # ys))"
          using ys unfolding loop_post_def by simp
        show "current_size ?st' = get_directory_size (on_disk ?st') D"
          using ys unfolding loop_post_def by simp
        show "\<forall>f \<in> set (f # ys). \<not> rm_fails (fst f)"
          using ys ok unfolding loop_post_def by simp
        show "current_size ?st' \<le> C
          \<or> (\<forall>g \<in> set (f # xs). g \<in> set (d_files (on_disk ?st')) \<longrightarrow> rm_fails (fst g))"
          using ys nf unfolding loop_post_def by auto
      qed
      then show ?thesis
        unfolding step ..
    qed
  qed
qed

text \<open>
  Claim C2. On a disk whose file paths are distinct, after the oldest-files
  strategy the size of the directory is at most the cap, or every file still
  under it is one whose removal the system refused (so with no refusals, no
  file is left). The files removed were taken in ascending mtime order, the
  returned count is their number, the running total went down by exactly their
  sizes and equals the true size at the end, and the directories are unchanged.
\<close>

theorem delete_oldest_files_cap:
  assumes "distinct (map fst (d_files dk))"
  shows "(let st = sweep_oldest_files rm_fails dk D C in
       delete_oldest_files rm_fails dk D C = (length (deleted st), on_disk st)
     \<and> (get_directory_size (on_disk st) D \<le> C
          \<or> (\<forall>f \<in> set (get_all_files_with_mtime (on_disk st) D). rm_fails (fst f)))
     \<and> ((\<forall>p. \<not> rm_fails p) \<longrightarrow>
           get_directory_size (on_disk st) D \<le> C
           \<or> get_all_files_with_mtime (on_disk st) D = [])
     \<and> sorted (map f_mtime (deleted st))
     \<and> current_size st = get_directory_size dk D - sum_list (map f_size (deleted st))
     \<and> current_size st = get_directory_size (on_disk st) D
     \<and> d_files (on_disk st) = filter (\<lambda>g. g \<notin> set (deleted st)) (d_files dk)
     \<and> set (deleted st) \<subseteq> set (get_all_files_with_mtime dk D)
     \<and> d_dirs (on_disk st) = d_dirs dk)"
proof -
  define st0 where "st0 = \<lparr>on_disk = dk, current_size = get_directory_size dk D,
                deleted_count = 0, deleted = []\<rparr>"
  define xs where "xs = sort_key f_mtime (get_all_files_with_mtime dk D)"
  define st where "st = sweep_oldest_files rm_fails dk D C"
  have st_eq: "st = (if get_directory_size dk D \<le> C then st0
                     else delete_files_loop rm_fails C xs st0)"
    by (simp add: st_def sweep_oldest_files_def st0_def xs_def Let_def)
  have cnt: "delete_oldest_files rm_fails dk D C = (deleted_count st, on_disk st)"
    by (simp add: delete_oldest_files_def st_def Let_def)
  have "\<exists>ys. loop_post rm_fails C D xs st0 st ys"
  proof (cases "get_directory_size dk D \<le> C")
    case True
    then have "st = st0"
      by (simp add: st_eq)
    with True show ?thesis
      by (intro exI [of _ "[]"]) (simp add: loop_post_def st0_def)
  next
    case False
    have "distinct (d_files dk)"
      using assms by (simp add: distinct_map)
    then have "\<exists>ys. loop_post rm_fails C D xs st0 (delete_files_loop rm_fails C xs st0) ys"
      using assms
      by (intro delete_files_loop_inv)
         (auto simp: st0_def xs_def get_all_files_with_mtime_def sorted_sort_key)
    with False show ?thesis
      by (simp add: st_eq)
  qed
  then obtain ys where ys: "loop_post rm_fails C D xs st0 st ys" ..
  have d: "deleted st = ys"
    using ys by (simp add: loop_post_def st0_def)
  have sub: "set ys \<subseteq> set (get_all_files_with_mtime dk D)"
    using ys by (simp add: loop_post_def xs_def)
  have fl: "d_files (on_disk st) = filter (\<lambda>g. g \<notin> set ys) (d_files dk)"
    using ys by (simp add: loop_post_def st0_def)
  have rest: "set (get_all_files_with_mtime (on_disk st) D) \<subseteq> set xs \<inter> set (d_files (on_disk st))"
    by (auto simp: get_all_files_with_mtime_def fl xs_def)
  have cap: "get_directory_size (on_disk st) D \<le> C
          \<or> (\<forall>f \<in> set (get_all_files_with_mtime (on_disk st) D). rm_fails (fst f))"
  proof (cases "current_size st \<le> C")
    case True
    moreover have "current_size st = get_directory_size (on_disk st) D"
      using ys by (simp add: loop_post_def)
    ultimately show ?thesis by simp
  next
    case False
    with ys have "\<forall>f \<in> set xs. f \<in> set (d_files (on_disk st)) \<longrightarrow> rm_fails (fst f)"
      by (simp add: loop_post_def)
    with rest show ?thesis by blast
  qed
  have cap': "(\<forall>p. \<not> rm_fails p) \<longrightarrow>
           get_directory_size (on_disk st) D \<le> C
           \<or> get_all_files_with_mtime (on_disk st) D = []"
  proof
    assume nf: "\<forall>p. \<not> rm_fails p"
    from cap show "get_directory_size (on_disk st) D \<le> C
           \<or> get_all_files_with_mtime (on_disk st) D = []"
    proof
      assume "get_directory_size (on_disk st) D \<le> C"
      then show ?thesis ..
    next
      assume "\<forall>f \<in> set (get_all_files_with_mtime (on_disk st) D). rm_fails (fst f)"
      with nf have "\<forall>f. f \<notin> set (get_all_files_with_mtime (on_disk st) D)"
        by blast
      then have "get_all_files_with_mtime (on_disk st) D = []"
        by (cases "get_all_files_with_mtime (on_disk st) D") auto
      then show ?thesis ..
    qed
  qed
  have dirs: "d_dirs (on_disk st) = d_dirs dk"
    by (simp add: st_eq delete_files_loop_dirs st0_def)
  have "delete_oldest_files rm_fails dk D C = (length (deleted st), on_disk st)"
    using ys cnt d by (simp add: loop_post_def st0_def)
  moreover have "sorted (map f_mtime (deleted st))"
    using ys d by (simp add: loop_post_def)
  moreover have "current_size st = get_directory_size dk D - sum_list (map f_size (deleted st))"
    using ys d by (simp add: loop_post_def st0_def)
  moreover have "current_size st = get_directory_size (on_disk st) D"
    using ys by (simp add: loop_post_def)
  moreover have "d_files (on_disk st) = filter (\<lambda>g. g \<notin> set (deleted st)) (d_files dk)"
    using fl d by simp
  moreover have "set (deleted st) \<subseteq> set (get_all_files_with_mtime dk D)"
    using sub d by simp
  ultimately show ?thesis
    unfolding Let_def st_def [symmetric] using cap cap' dirs by blast
qed

theorem delete_oldest_files_cap_witness:
  "delete_oldest_files (\<lambda>p. False) demo_disk watch 12
     = (4, demo_disk\<lparr>d_files := [([''watch'', ''top.fits''], 25, 4),
                                 ([''watch'', ''s3'', ''e.fits''], 31, 5)]\<rparr>)
   \<and> get_directory_size (on_disk (sweep_oldest_files (\<lambda>p. False) demo_disk watch 12)) watch \<le> 12
   \<and> d_dirs (on_disk (sweep_oldest_files (\<lambda>p. False) demo_disk watch 12)) = d_dirs demo_disk"
proof -
  have h: "distinct (map fst (d_files demo_disk))"
    by (simp add: demo_disk_def)
  have s: "sweep_oldest_files (\<lambda>p. False) demo_disk watch 12 =
     \<lparr>on_disk = demo_disk\<lparr>d_files := [([''watch'', ''top.fits''], 25, 4),
                                 ([''watch'', ''s3'', ''e.fits''], 31, 5)]\<rparr>,
      current_size = 9, deleted_count = 4,
      deleted = [([''watch'', ''s1'', ''a.fits''], 11, 5), ([''watch'', ''s1'', ''b.fits''], 12, 5),
                 ([''watch'', ''s2'', ''c.fits''], 21, 5), ([''watch'', ''s2'', ''d.fits''], 22, 5)]\<rparr>"
    by (simp add: sweep_oldest_files_def demo_disk_def watch_def get_directory_size_def
        get_all_files_with_mtime_def under_def f_size_def f_mtime_def remove_file_def Let_def)
  have g: "get_directory_size (demo_disk\<lparr>d_files := [([''watch'', ''top.fits''], 25, 4),
                                 ([''watch'', ''s3'', ''e.fits''], 31, 5)]\<rparr>) watch = 9"
    by (simp add: get_directory_size_def watch_def under_def f_size_def)
  let ?S = "sweep_oldest_files (\<lambda>p. False) demo_disk watch 12"
  from delete_oldest_files_cap [OF h, of "\<lambda>p. False" watch 12]
  have "delete_oldest_files (\<lambda>p. False) demo_disk watch 12 = (length (deleted ?S), on_disk ?S)"
    unfolding Let_def by (rule conjunct1)
  then have a: "delete_oldest_files (\<lambda>p. False) demo_disk watch 12
     = (4, demo_disk\<lparr>d_files := [([''watch'', ''top.fits''], 25, 4),
                                 ([''watch'', ''s3'', ''e.fits''], 31, 5)]\<rparr>)"
    unfolding s by simp
  have b: "get_directory_size (on_disk ?S) watch \<le> 12"
    unfolding s by (simp add: g)
  have c: "d_dirs (on_disk ?S) = d_dirs demo_disk"
    unfolding s by simp
  from a b c show ?thesis
    by (intro conjI)
qed

text \<open>
  Files outside the folders handed to the session loop survive it; two distinct
  children of the watch directory share no descendant.
\<close>

lemma sessions_loop_keeps:
  "g \<in> set (d_files (on_disk st)) \<Longrightarrow> \<forall>folder \<in> set folders. \<not> under (fst folder) (fst g) \<Longrightarrow>
   g \<in> set (d_files (on_disk (sessions_loop rm_fails C folders st)))"
proof (induction folders arbitrary: st)
  case Nil
  then show ?case by simp
next
  case (Cons folder folders)
  show ?case
  proof (cases "current_size st \<le> C")
    case True
    with Cons.prems show ?thesis by simp
  next
    case False
    let ?st = "delete_files_loop rm_fails C (get_all_files_with_mtime (on_disk st) (fst folder)) st"
    from Cons.prems(2) have "fst g \<notin> fst ` set (get_all_files_with_mtime (on_disk st) (fst folder))"
      by (auto simp: get_all_files_with_mtime_def)
    with Cons.prems(1) have "g \<in> set (d_files (on_disk ?st))"
      by (rule delete_files_loop_keeps)
    moreover from Cons.prems(2) have "\<forall>folder \<in> set folders. \<not> under (fst folder) (fst g)"
      by simp
    ultimately have "g \<in> set (d_files (on_disk (sessions_loop rm_fails C folders ?st)))"
      by (rule Cons.IH)
    with False show ?thesis by simp
  qed
qed

lemma child_disjoint:
  "child_of D a \<Longrightarrow> child_of D b \<Longrightarrow> a \<noteq> b \<Longrightarrow> under a p \<Longrightarrow> \<not> under b p"
  by (auto simp: child_of_def under_def)

lemma session_folders_children:
  "g \<in> set (get_session_folders dk D) \<Longrightarrow> child_of D (fst g)"
  by (auto simp: get_session_folders_def)

lemma session_folders_distinct:
  "distinct (map fst (d_dirs dk)) \<Longrightarrow> distinct (map fst (get_session_folders dk D))"
proof -
  assume d: "distinct (map fst (d_dirs dk))"
  have "map fst (get_session_folders dk D)
        = map fst (filter (\<lambda>(p, m). child_of D p) (d_dirs dk))"
    by (simp add: get_session_folders_def split_beta comp_def)
  with d show ?thesis
    by (simp add: distinct_map_filter)
qed


text \<open>
  Claim C7. On a disk whose directory paths are distinct: with at most one
  session folder the strategy deletes nothing and returns 0. Otherwise the
  folder that sorts last by mtime is one of the child folders, no child folder
  has a larger mtime, any child folder whose mtime is strictly above all others
  is that folder, and every file under it is still on the disk afterwards.
\<close>

theorem delete_oldest_sessions_keeps_latest:
  assumes "distinct (map fst (d_dirs dk))"
  shows "(length (get_session_folders dk D) \<le> 1 \<longrightarrow>
            delete_oldest_sessions rm_fails dk D C = (0, dk))
     \<and> (get_session_folders dk D \<noteq> [] \<longrightarrow>
          (let kept = last (sort_key f_mtime (get_session_folders dk D)) in
             kept \<in> set (get_session_folders dk D)
           \<and> (\<forall>g \<in> set (get_session_folders dk D). f_mtime g \<le> f_mtime kept)
           \<and> (\<forall>k \<in> set (get_session_folders dk D).
                 (\<forall>g \<in> set (get_session_folders dk D). g \<noteq> k \<longrightarrow> f_mtime g < f_mtime k)
                 \<longrightarrow> k = kept)
           \<and> (\<forall>f \<in> set (d_files dk). under (fst kept) (fst f) \<longrightarrow>
                 f \<in> set (d_files (snd (delete_oldest_sessions rm_fails dk D C))))))"
proof (intro conjI impI)
  assume "length (get_session_folders dk D) \<le> 1"
  then have "length (get_session_folders dk D) = 0 \<or> length (get_session_folders dk D) = 1"
    by linarith
  then have "length (sort_key f_mtime (get_session_folders dk D)) = 0
           \<or> length (sort_key f_mtime (get_session_folders dk D)) = 1"
    by simp
  then show "delete_oldest_sessions rm_fails dk D C = (0, dk)"
    by (auto simp: delete_oldest_sessions_def sweep_oldest_sessions_def Let_def)
next
  assume ne: "get_session_folders dk D \<noteq> []"
  define folders where "folders = sort_key f_mtime (get_session_folders dk D)"
  define kept where "kept = last folders"
  define st0 where "st0 = \<lparr>on_disk = dk, current_size = get_directory_size dk D,
                deleted_count = 0, deleted = []\<rparr>"
  have set_eq: "set folders = set (get_session_folders dk D)"
    by (simp add: folders_def)
  have fne: "folders \<noteq> []"
    using ne set_eq by (metis set_empty)
  then have split: "folders = butlast folders @ [kept]"
    by (simp add: kept_def)
  have kin: "kept \<in> set (get_session_folders dk D)"
    using fne set_eq kept_def last_in_set by blast
  have "sorted (map f_mtime folders)"
    by (simp add: folders_def sorted_sort_key)
  then have "sorted (map f_mtime (butlast folders @ [kept]))"
    using split by simp
  then have "\<forall>g \<in> set (butlast folders). f_mtime g \<le> f_mtime kept"
    by (simp add: sorted_append)
  then have "\<forall>g \<in> set (butlast folders @ [kept]). f_mtime g \<le> f_mtime kept"
    by simp
  then have mx: "\<forall>g \<in> set (get_session_folders dk D). f_mtime g \<le> f_mtime kept"
    using split set_eq by simp
  have uniq: "\<forall>k \<in> set (get_session_folders dk D).
                 (\<forall>g \<in> set (get_session_folders dk D). g \<noteq> k \<longrightarrow> f_mtime g < f_mtime k)
                 \<longrightarrow> k = kept"
  proof (intro ballI impI)
    fix k assume k: "k \<in> set (get_session_folders dk D)"
      and gt: "\<forall>g \<in> set (get_session_folders dk D). g \<noteq> k \<longrightarrow> f_mtime g < f_mtime k"
    show "k = kept"
    proof (rule ccontr)
      assume "k \<noteq> kept"
      with gt kin have "f_mtime kept < f_mtime k" by auto
      moreover from mx k have "f_mtime k \<le> f_mtime kept" by simp
      ultimately show False by simp
    qed
  qed
  have "distinct (map fst (get_session_folders dk D))"
    using assms by (rule session_folders_distinct)
  then have "distinct (map fst folders)"
    by (simp add: folders_def distinct_map inj_on_def)
  then have "distinct (map fst (butlast folders @ [kept]))"
    using split by simp
  then have "fst kept \<notin> fst ` set (butlast folders)"
    by simp
  then have other: "\<forall>g \<in> set (butlast folders). fst g \<noteq> fst kept"
    by (metis imageI)
  have keep: "\<forall>f \<in> set (d_files dk). under (fst kept) (fst f) \<longrightarrow>
                 f \<in> set (d_files (snd (delete_oldest_sessions rm_fails dk D C)))"
  proof (intro ballI impI)
    fix f assume f: "f \<in> set (d_files dk)" and u: "under (fst kept) (fst f)"
    have "\<forall>folder \<in> set (butlast folders). \<not> under (fst folder) (fst f)"
    proof
      fix g assume g: "g \<in> set (butlast folders)"
      then have "g \<in> set (get_session_folders dk D)"
        using set_eq by (metis in_set_butlastD)
      then have "child_of D (fst g)"
        by (rule session_folders_children)
      moreover have "child_of D (fst kept)"
        using kin by (rule session_folders_children)
      moreover have "fst kept \<noteq> fst g"
        using other g by auto
      ultimately show "\<not> under (fst g) (fst f)"
        using u child_disjoint [of D "fst kept" "fst g" "fst f"] by blast
    qed
    moreover have "f \<in> set (d_files (on_disk st0))"
      using f by (simp add: st0_def)
    ultimately have "f \<in> set (d_files (on_disk (sessions_loop rm_fails C (butlast folders) st0)))"
      by (intro sessions_loop_keeps)
    moreover have "snd (delete_oldest_sessions rm_fails dk D C) = on_disk st0
        \<or> snd (delete_oldest_sessions rm_fails dk D C)
            = on_disk (sessions_loop rm_fails C (butlast folders) st0)"
      by (simp add: delete_oldest_sessions_def sweep_oldest_sessions_def Let_def
          folders_def [symmetric] st0_def [symmetric])
    ultimately show "f \<in> set (d_files (snd (delete_oldest_sessions rm_fails dk D C)))"
      using \<open>f \<in> set (d_files (on_disk st0))\<close> by auto
  qed
  show "let kept = last (sort_key f_mtime (get_session_folders dk D)) in
             kept \<in> set (get_session_folders dk D)
           \<and> (\<forall>g \<in> set (get_session_folders dk D). f_mtime g \<le> f_mtime kept)
           \<and> (\<forall>k \<in> set (get_session_folders dk D).
                 (\<forall>g \<in> set (get_session_folders dk D). g \<noteq> k \<longrightarrow> f_mtime g < f_mtime k)
                 \<longrightarrow> k = kept)
           \<and> (\<forall>f \<in> set (d_files dk). under (fst kept) (fst f) \<longrightarrow>
                 f \<in> set (d_files (snd (delete_oldest_sessions rm_fails dk D C))))"
    unfolding Let_def folders_def [symmetric] kept_def [symmetric]
    using kin mx uniq keep by (intro conjI)
qed

theorem delete_oldest_sessions_keeps_latest_witness:
  "([''watch'', ''s3'', ''e.fits''], 31, 5)
     \<in> set (d_files (snd (delete_oldest_sessions (\<lambda>p. False) demo_disk watch 0)))
   \<and> delete_oldest_sessions (\<lambda>p. False)
         (demo_disk\<lparr>d_dirs := [([''watch'', ''s1''], 10)]\<rparr>) watch 0
       = (0, demo_disk\<lparr>d_dirs := [([''watch'', ''s1''], 10)]\<rparr>)"
proof -
  let ?e = "([''watch'', ''s3'', ''e.fits''], 31 :: int, 5 :: int)"
  let ?one = "demo_disk\<lparr>d_dirs := [([''watch'', ''s1''], 10)]\<rparr>"
  have h: "distinct (map fst (d_dirs demo_disk))"
    by (simp add: demo_disk_def)
  have sf: "get_session_folders demo_disk watch
      = [([''watch'', ''s1''], 10, 10), ([''watch'', ''s3''], 30, 5), ([''watch'', ''s2''], 20, 10)]"
    by (simp add: get_session_folders_def demo_disk_def watch_def child_of_def
        get_directory_size_def under_def f_size_def)
  have ne: "get_session_folders demo_disk watch \<noteq> []"
    by (simp add: sf)
  have kept: "last (sort_key f_mtime (get_session_folders demo_disk watch))
      = ([''watch'', ''s3''], 30, 5)"
    by (simp add: sf f_mtime_def)
  have fin: "?e \<in> set (d_files demo_disk)"
    by (simp add: demo_disk_def)
  have un: "under (fst (last (sort_key f_mtime (get_session_folders demo_disk watch)))) (fst ?e)"
    unfolding kept by (simp add: under_def)
  from delete_oldest_sessions_keeps_latest [OF h, of watch "\<lambda>p. False" 0] ne
  have "\<forall>f \<in> set (d_files demo_disk).
          under (fst (last (sort_key f_mtime (get_session_folders demo_disk watch)))) (fst f) \<longrightarrow>
          f \<in> set (d_files (snd (delete_oldest_sessions (\<lambda>p. False) demo_disk watch 0)))"
    unfolding Let_def by blast
  with fin un have a: "?e \<in> set (d_files (snd (delete_oldest_sessions (\<lambda>p. False) demo_disk watch 0)))"
    by blast
  have h1: "distinct (map fst (d_dirs ?one))"
    by simp
  have l1: "length (get_session_folders ?one watch) \<le> 1"
    by (simp add: get_session_folders_def)
  from delete_oldest_sessions_keeps_latest [OF h1, of watch "\<lambda>p. False" 0] l1
  have b: "delete_oldest_sessions (\<lambda>p. False) ?one watch 0 = (0, ?one)"
    by blast
  from a b show ?thesis
    by (intro conjI)
qed

section \<open>Properties of the inference service\<close>

text \<open>
  Both helpers end in a value, since each catches what its body raises. The roof
  block leaves its input untouched when there is no roof model or the model
  raises, and never writes a sky field; the sky block never writes a roof field
  and leaves its input untouched when there is no sky model, the roof is not
  open, or the model raises.
\<close>

lemma compute_corner_analysis_returns: "\<exists>ca. compute_corner_analysis img = Inr ca"
  by (simp add: compute_corner_analysis_def split: sum.splits)

lemma compute_time_context_returns: "\<exists>tc. compute_time_context now_hour = Inr tc"
  by (simp add: compute_time_context_def split: option.splits)

lemma roof_block_unavailable:
  "roof_classifier svc = None \<or> (\<exists>p e. roof_classifier svc = Some p \<and> p img meta = Inl e)
   \<Longrightarrow> roof_block svc config img meta r = r"
  by (auto simp: roof_block_def split: option.splits)

lemma roof_block_sky_fields:
  "sky_condition (roof_block svc config img meta r) = sky_condition r
   \<and> sky_confidence (roof_block svc config img meta r) = sky_confidence r
   \<and> stars_visible (roof_block svc config img meta r) = stars_visible r
   \<and> star_density (roof_block svc config img meta r) = star_density r
   \<and> moon_visible (roof_block svc config img meta r) = moon_visible r"
  by (simp add: roof_block_def Let_def split: option.splits sum.splits)

lemma sky_block_roof_fields:
  "roof_status (sky_block svc config img meta r) = roof_status r
   \<and> roof_confidence (sky_block svc config img meta r) = roof_confidence r"
  by (simp add: sky_block_def Let_def split: option.splits sum.splits)

lemma sky_block_unavailable:
  "sky_classifier svc = None \<or> roof_status r \<noteq> ''Open''
     \<or> (\<exists>p e. sky_classifier svc = Some p \<and> p img meta = Inl e)
   \<Longrightarrow> sky_block svc config img meta r = r"
  by (auto simp: sky_block_def split: option.splits)

lemma roof_block_status:
  "roof_status r = ''N/A'' \<Longrightarrow>
   roof_status (roof_block svc config img meta r) = ''N/A''
   \<or> roof_status (roof_block svc config img meta r) = ''Open''
   \<or> roof_status (roof_block svc config img meta r) = ''Closed''"
  by (simp add: roof_block_def Let_def split: option.splits sum.splits)


text \<open>
  Claim C5. For every buffer, clock, configuration and pair of models,
  \<open>analyze_image\<close> ends in a result record (all seven fields) and never in an
  exception, and caches it. The roof status is one of \<open>N/A\<close>, \<open>Open\<close>, \<open>Closed\<close>.
  Without a roof model, or when the roof model raises, every field has its
  unavailable default (the sky model is not consulted unless the roof is open).
  When the sky model raises, the sky fields have their defaults and the record
  is exactly what the roof block produced.
\<close>

theorem analyze_image_never_raises:
  "\<exists>ca tc res.
     compute_corner_analysis img = Inr ca \<and> compute_time_context now_hour = Inr tc
   \<and> analyze_image now_hour svc img config = Inr (res, svc\<lparr>last_results := Some res\<rparr>)
   \<and> (roof_status res = ''N/A'' \<or> roof_status res = ''Open'' \<or> roof_status res = ''Closed'')
   \<and> (roof_classifier svc = None \<longrightarrow> res = default_results)
   \<and> (\<forall>p e. roof_classifier svc = Some p \<and> p img (build_meta ca tc) = Inl e
         \<longrightarrow> res = default_results)
   \<and> (\<forall>p e. sky_classifier svc = Some p \<and> p img (build_meta ca tc) = Inl e
         \<longrightarrow> res = roof_block svc config img (build_meta ca tc) default_results
             \<and> sky_condition res = ''N/A'' \<and> sky_confidence res = None
             \<and> stars_visible res = None \<and> star_density res = None
             \<and> moon_visible res = None)"
proof -
  obtain ca where ca: "compute_corner_analysis img = Inr ca"
    using compute_corner_analysis_returns by blast
  obtain tc where tc: "compute_time_context now_hour = Inr tc"
    using compute_time_context_returns by blast
  define r1 where "r1 = roof_block svc config img (build_meta ca tc) default_results"
  define res where "res = sky_block svc config img (build_meta ca tc) r1"
  have run: "analyze_image now_hour svc img config = Inr (res, svc\<lparr>last_results := Some res\<rparr>)"
    by (simp add: analyze_image_def ca tc Let_def res_def r1_def)
  have st: "roof_status res = roof_status r1"
    unfolding res_def using sky_block_roof_fields by blast
  have "roof_status default_results = ''N/A''"
    by (simp add: default_results_def)
  then have three: "roof_status res = ''N/A'' \<or> roof_status res = ''Open'' \<or> roof_status res = ''Closed''"
    unfolding st r1_def by (rule roof_block_status)
  have closed: "res = default_results" if "r1 = default_results"
  proof -
    have "roof_status r1 \<noteq> ''Open''"
      using that by (simp add: default_results_def)
    then have "sky_block svc config img (build_meta ca tc) r1 = r1"
      by (intro sky_block_unavailable) simp
    with that show ?thesis
      by (simp add: res_def)
  qed
  have none: "roof_classifier svc = None \<longrightarrow> res = default_results"
  proof
    assume "roof_classifier svc = None"
    then have "r1 = default_results"
      unfolding r1_def by (intro roof_block_unavailable) simp
    then show "res = default_results"
      by (rule closed)
  qed
  have rraise: "\<forall>p e. roof_classifier svc = Some p \<and> p img (build_meta ca tc) = Inl e
         \<longrightarrow> res = default_results"
  proof (intro allI impI)
    fix p e assume "roof_classifier svc = Some p \<and> p img (build_meta ca tc) = Inl e"
    then have "r1 = default_results"
      unfolding r1_def by (intro roof_block_unavailable) blast
    then show "res = default_results"
      by (rule closed)
  qed
  have sraise: "\<forall>p e. sky_classifier svc = Some p \<and> p img (build_meta ca tc) = Inl e
         \<longrightarrow> res = r1 \<and> sky_condition res = ''N/A'' \<and> sky_confidence res = None
             \<and> stars_visible res = None \<and> star_density res = None
             \<and> moon_visible res = None"
  proof (intro allI impI)
    fix p e assume "sky_classifier svc = Some p \<and> p img (build_meta ca tc) = Inl e"
    then have eq: "res = r1"
      unfolding res_def by (intro sky_block_unavailable) blast
    have "sky_condition r1 = sky_condition default_results
        \<and> sky_confidence r1 = sky_confidence default_results
        \<and> stars_visible r1 = stars_visible default_results
        \<and> star_density r1 = star_density default_results
        \<and> moon_visible r1 = moon_visible default_results"
      unfolding r1_def by (rule roof_block_sky_fields)
    then show "res = r1 \<and> sky_condition res = ''N/A'' \<and> sky_confidence res = None
             \<and> stars_visible res = None \<and> star_density res = None
             \<and> moon_visible res = None"
      using eq by (simp add: default_results_def)
  qed
  show ?thesis
    using ca tc run three none rraise sraise unfolding r1_def
    by (intro exI [of _ ca] exI [of _ tc] exI [of _ res] conjI)
qed

theorem analyze_image_never_raises_witness:
  "analyze_image (Some 22) no_models (flat8 10) no_config
     = Inr (default_results, no_models\<lparr>last_results := Some default_results\<rparr>)
   \<and> analyze_image (Some 22)
       \<lparr>roof_classifier = Some roof_says_open, sky_classifier = Some sky_raises,
        last_results = None\<rparr> (flat8 10) no_config
     = Inr (default_results\<lparr>roof_status := ''Open'', roof_confidence := Some (9 / 10)\<rparr>,
            \<lparr>roof_classifier = Some roof_says_open, sky_classifier = Some sky_raises,
             last_results =
               Some (default_results\<lparr>roof_status := ''Open'',
                                      roof_confidence := Some (9 / 10)\<rparr>)\<rparr>)"
proof -
  let ?svc = "\<lparr>roof_classifier = Some roof_says_open, sky_classifier = Some sky_raises,
        last_results = None\<rparr>"
  have a: "analyze_image (Some 22) no_models (flat8 10) no_config
     = Inr (default_results, no_models\<lparr>last_results := Some default_results\<rparr>)"
    using analyze_image_never_raises [of "flat8 10" "Some 22" no_models no_config]
    by (elim exE conjE) (simp add: no_models_def)
  have r3: "round3 (9 / 10) = 9 / 10"
    by (simp add: round3_def round_half_even_def)
  have rb: "roof_block ?svc no_config (flat8 10) meta default_results
      = default_results\<lparr>roof_status := ''Open'', roof_confidence := Some (9 / 10)\<rparr>" for meta
    by (simp add: roof_block_def roof_says_open_def no_config_def dict_get_def r3)
  have b: "analyze_image (Some 22) ?svc (flat8 10) no_config
     = Inr (default_results\<lparr>roof_status := ''Open'', roof_confidence := Some (9 / 10)\<rparr>,
            \<lparr>roof_classifier = Some roof_says_open, sky_classifier = Some sky_raises,
             last_results =
               Some (default_results\<lparr>roof_status := ''Open'',
                                      roof_confidence := Some (9 / 10)\<rparr>)\<rparr>)"
    using analyze_image_never_raises [of "flat8 10" "Some 22" ?svc no_config]
    by (elim exE conjE) (simp add: rb sky_raises_def)
  from a b show ?thesis
    by simp
qed


text \<open>
  For samples between 0 and 255 the normalisation does what its comment says:
  every normalised value lies between 0 and 1.
\<close>

lemma fold_max_ge:
  "(x :: rat) \<le> fold max xs x \<and> (\<forall>y \<in> set xs. y \<le> fold max xs x)"
proof (induction xs arbitrary: x)
  case Nil
  then show ?case by simp
next
  case (Cons a xs)
  from Cons.IH [of "max a x"] show ?case
    by (auto simp: max_def split: if_splits)
qed

lemma fin_values_Fin: "fin_values (map Fin xs) = Some xs"
  by (induction xs) simp_all

lemma normalize_unit_range:
  assumes range: "\<forall>row \<in> set rows. \<forall>x \<in> set row. 0 \<le> x \<and> x \<le> 255"
    and norm: "normalize (map (map Fin) rows) = Inr g"
  shows "\<forall>row \<in> set g. \<forall>v \<in> set row. \<exists>x. v = Fin x \<and> 0 \<le> x \<and> x \<le> 1"
proof -
  have flat: "concat (map (map Fin) rows) = map Fin (concat rows)"
    by (simp add: map_concat)
  have fv: "fin_values (concat (map (map Fin) rows)) = Some (concat rows)"
    unfolding flat by (rule fin_values_Fin)
  from norm obtain m where m: "arr_max (map (map Fin) rows) = Inr m"
    by (auto simp: normalize_def split: sum.splits)
  then obtain x xs where ne: "concat rows = x # xs" and mx: "m = Fin (fold max xs x)"
    by (auto simp: arr_max_def fv split: list.splits)
  have top: "\<forall>y \<in> set (concat rows). y \<le> fold max xs x"
    using fold_max_ge [of x xs] ne by auto
  show ?thesis
  proof (cases "1 < fold max xs x")
    case True
    then have "g = map (map (\<lambda>v. pf_div v (Fin 255))) (map (map Fin) rows)"
      using norm m mx by (simp add: normalize_def pf_gt_def)
    then have "g = map (map (\<lambda>y. Fin (y / 255))) rows"
      by (simp add: pf_div_def comp_def)
    then have geq: "g = map (map (\<lambda>y. Fin (y / 255))) rows" .
    show ?thesis
    proof (intro ballI)
      fix row v assume "row \<in> set g" and v: "v \<in> set row"
      then obtain r where r: "r \<in> set rows" and row: "row = map (\<lambda>y. Fin (y / 255)) r"
        unfolding geq by auto
      from v row obtain y where y: "y \<in> set r" and vy: "v = Fin (y / 255)"
        by auto
      from range r y have "0 \<le> y \<and> y \<le> 255"
        by blast
      then show "\<exists>x. v = Fin x \<and> 0 \<le> x \<and> x \<le> 1"
        unfolding vy by (intro exI [of _ "y / 255"]) simp
    qed
  next
    case False
    then have "g = map (map Fin) rows"
      using norm m mx by (simp add: normalize_def pf_gt_def)
    moreover have "\<forall>row \<in> set rows. \<forall>y \<in> set row. y \<le> 1"
      using top False by fastforce
    ultimately show ?thesis
      using range by auto
  qed
qed

text \<open>
  Claim C8. The claim has the values normalised into the unit interval whenever
  the source range exceeds 1, as the comment at line 282 says. The code divides
  by 255 whatever the range: an 8 by 8 buffer of 16-bit samples, all 510, is
  normalised to the value 2 throughout, and both medians returned are 2.
\<close>

theorem corner_analysis_divides_by_255:
  "normalize (map (map Fin) (replicate 8 (replicate 8 510)))
     = Inr (replicate 8 (replicate 8 (Fin 2)))
   \<and> compute_corner_analysis (flat8 510)
     = Inr \<lparr>corner_med = Fin 2, center_med = Fin 2, corner_to_center_ratio = Fin 1\<rparr>"
  by code_simp

end
